theory Spec2Isabelle
  imports Main
begin

section \<open>Exceptions and strings\<close>

text \<open>
  The exceptions the library calls of \<^verbatim>\<open>task_one.py\<close> can raise, each with its
  message. An operation that can raise returns \<open>py_error + 'a\<close>, \<open>Inl\<close> being the raise.
\<close>

datatype py_error = ValueError string | KeyError string

text \<open>
  A Python \<^verbatim>\<open>str\<close> is a sequence of code points. The model covers the strings whose
  code points are below 256: one \<open>char\<close> is one code point, \<open>length\<close> is \<^verbatim>\<open>len\<close>.
\<close>

definition ord :: "char \<Rightarrow> nat" where
  "ord c = of_char c"

text \<open>
  \<^verbatim>\<open>str.isdigit\<close> on one character: below 256 the characters with the Unicode digit
  property are \<^verbatim>\<open>0\<close>..\<^verbatim>\<open>9\<close> (48..57) and the superscripts two, three and one
  (178, 179, 185).
\<close>

definition isdigit_char :: "char \<Rightarrow> bool" where
  "isdigit_char c \<longleftrightarrow> (48 \<le> ord c \<and> ord c \<le> 57) \<or> ord c = 178 \<or> ord c = 179 \<or> ord c = 185"

text \<open>\<^verbatim>\<open>str.isdigit\<close>: all characters are digits and there is at least one.\<close>

definition isdigit :: "string \<Rightarrow> bool" where
  "isdigit s \<longleftrightarrow> s \<noteq> [] \<and> list_all isdigit_char s"

text \<open>The ASCII decimal digits \<^verbatim>\<open>0\<close>..\<^verbatim>\<open>9\<close>; below 256 also the class \<^verbatim>\<open>\d\<close> of \<^verbatim>\<open>re\<close>.\<close>

definition ascii_digit :: "char \<Rightarrow> bool" where
  "ascii_digit c \<longleftrightarrow> 48 \<le> ord c \<and> ord c \<le> 57"

section \<open>Fields\<close>

datatype Name = Name (name_value: string)

datatype Phone = Phone (phone_value: string)

text \<open>\<^verbatim>\<open>Phone.__validate_phone\<close>: the length check, then the digit check.\<close>

definition validate_phone :: "string \<Rightarrow> py_error + string" where
  "validate_phone phone =
     (if length phone \<noteq> 10 then Inl (ValueError ''The phone number must contain 10 digits'')
      else if \<not> isdigit phone then Inl (ValueError ''The phone number must contain only numbers'')
      else Inr phone)"

text \<open>\<^verbatim>\<open>Phone.__init__\<close>: the object holds what the validation returns.\<close>

definition Phone_init :: "string \<Rightarrow> py_error + Phone" where
  "Phone_init phone =
     (case validate_phone phone of Inl e \<Rightarrow> Inl e | Inr v \<Rightarrow> Inr (Phone v))"

section \<open>Calendar dates\<close>

text \<open>
  \<^verbatim>\<open>datetime.date\<close>: the proleptic Gregorian calendar of the library, years
  \<^verbatim>\<open>MINYEAR\<close> = 1 to \<^verbatim>\<open>MAXYEAR\<close> = 9999. Python integers are unbounded: \<open>int\<close>.
\<close>

record date =
  year :: int
  month :: int
  day :: int

definition MINYEAR :: int where "MINYEAR = 1"
definition MAXYEAR :: int where "MAXYEAR = 9999"

definition DAYS_IN_MONTH :: "int list" where
  "DAYS_IN_MONTH = [-1, 31, 28, 31, 30, 31, 30, 31, 31, 30, 31, 30, 31]"

text \<open>The loop that fills \<^verbatim>\<open>_DAYS_BEFORE_MONTH\<close>: \<open>dbm\<close> is the running sum.\<close>

fun days_before_loop :: "int \<Rightarrow> int list \<Rightarrow> int list" where
  "days_before_loop dbm [] = []"
| "days_before_loop dbm (dim # dims) = dbm # days_before_loop (dbm + dim) dims"

definition DAYS_BEFORE_MONTH :: "int list" where
  "DAYS_BEFORE_MONTH = -1 # days_before_loop 0 (tl DAYS_IN_MONTH)"

definition is_leap :: "int \<Rightarrow> bool" where
  "is_leap y \<longleftrightarrow> y mod 4 = 0 \<and> (y mod 100 \<noteq> 0 \<or> y mod 400 = 0)"

definition days_before_year :: "int \<Rightarrow> int" where
  "days_before_year y' = (let y = y' - 1 in y * 365 + y div 4 - y div 100 + y div 400)"

definition days_in_month :: "int \<Rightarrow> int \<Rightarrow> int" where
  "days_in_month y m = (if m = 2 \<and> is_leap y then 29 else DAYS_IN_MONTH ! nat m)"

definition days_before_month :: "int \<Rightarrow> int \<Rightarrow> int" where
  "days_before_month y m = DAYS_BEFORE_MONTH ! nat m + (if m > 2 \<and> is_leap y then 1 else 0)"

definition ymd2ord :: "int \<Rightarrow> int \<Rightarrow> int \<Rightarrow> int" where
  "ymd2ord y m d = days_before_year y + days_before_month y m + d"

text \<open>Decimal text of an integer, as \<^verbatim>\<open>%d\<close> and \<^verbatim>\<open>str\<close> write it.\<close>

definition digit_char :: "nat \<Rightarrow> char" where
  "digit_char n = char_of (48 + n)"

fun str_nat :: "nat \<Rightarrow> string" where
  "str_nat n = (if n < 10 then [digit_char n] else str_nat (n div 10) @ [digit_char (n mod 10)])"

declare str_nat.simps [simp del]

definition str_int :: "int \<Rightarrow> string" where
  "str_int i = (if i < 0 then CHR ''-'' # str_nat (nat (- i)) else str_nat (nat i))"

text \<open>
  The constructor \<^verbatim>\<open>date(year, month, day)\<close> with the checks of
  \<^verbatim>\<open>_check_date_fields\<close>, in their order; the messages are those of CPython.
\<close>

definition date_new :: "int \<Rightarrow> int \<Rightarrow> int \<Rightarrow> py_error + date" where
  "date_new y m d =
     (if \<not> (MINYEAR \<le> y \<and> y \<le> MAXYEAR)
        then Inl (ValueError (''year '' @ str_int y @ '' is out of range''))
      else if \<not> (1 \<le> m \<and> m \<le> 12) then Inl (ValueError ''month must be in 1..12'')
      else if \<not> (1 \<le> d \<and> d \<le> days_in_month y m)
        then Inl (ValueError ''day is out of range for month'')
      else Inr \<lparr>year = y, month = m, day = d\<rparr>)"

text \<open>The dates a \<^verbatim>\<open>date\<close> object can hold: those the constructor accepts.\<close>

definition valid_date :: "date \<Rightarrow> bool" where
  "valid_date dt \<longleftrightarrow> MINYEAR \<le> year dt \<and> year dt \<le> MAXYEAR \<and> 1 \<le> month dt \<and> month dt \<le> 12
     \<and> 1 \<le> day dt \<and> day dt \<le> days_in_month (year dt) (month dt)"

definition toordinal :: "date \<Rightarrow> int" where
  "toordinal dt = ymd2ord (year dt) (month dt) (day dt)"

text \<open>\<^verbatim>\<open>date.replace(year=y)\<close> builds a new date, so it checks the fields again.\<close>

definition replace_year :: "date \<Rightarrow> int \<Rightarrow> py_error + date" where
  "replace_year dt y = date_new y (month dt) (day dt)"

text \<open>\<^verbatim>\<open>date.__lt__\<close>: the tuples (year, month, day) compared lexicographically.\<close>

definition date_lt :: "date \<Rightarrow> date \<Rightarrow> bool" where
  "date_lt a b \<longleftrightarrow> year a < year b \<or> (year a = year b \<and> (month a < month b
     \<or> (month a = month b \<and> day a < day b)))"

text \<open>\<^verbatim>\<open>(a - b).days\<close>: the difference of the ordinals.\<close>

definition date_sub_days :: "date \<Rightarrow> date \<Rightarrow> int" where
  "date_sub_days a b = toordinal a - toordinal b"

section \<open>Parsing and formatting a date\<close>

text \<open>
  \<^verbatim>\<open>datetime.strptime(s, "%d.%m.%Y")\<close> compiles the format to the regular expression
  \<^verbatim>\<open>(?P<d>3[0-1]|[1-2]\d|0[1-9]|[1-9]| [1-9])\.(?P<m>1[0-2]|0[1-9]|[1-9])\.(?P<Y>\d\d\d\d)\<close>
  (module \<^verbatim>\<open>_strptime\<close>) and matches it at the start of the text. The expression is a
  sequence of groups, a group is a list of alternatives tried in order, an alternative is
  a sequence of character classes. The flag \<^verbatim>\<open>IGNORECASE\<close> changes none of these classes.
\<close>

type_synonym char_class = "char \<Rightarrow> bool"

definition lit :: "char \<Rightarrow> char_class" where
  "lit a c \<longleftrightarrow> c = a"

definition chr_range :: "char \<Rightarrow> char \<Rightarrow> char_class" where
  "chr_range lo hi c \<longleftrightarrow> ord lo \<le> ord c \<and> ord c \<le> ord hi"

text \<open>One alternative at the start of the text: the characters it takes and the rest.\<close>

fun match_seq :: "char_class list \<Rightarrow> string \<Rightarrow> (string \<times> string) option" where
  "match_seq [] s = Some ([], s)"
| "match_seq (p # ps) [] = None"
| "match_seq (p # ps) (c # cs) =
     (if p c then (case match_seq ps cs of None \<Rightarrow> None | Some (m, r) \<Rightarrow> Some (c # m, r))
      else None)"

text \<open>The alternatives of a group that match, in the order the engine tries them.\<close>

fun match_alts :: "char_class list list \<Rightarrow> string \<Rightarrow> (string \<times> string) list" where
  "match_alts [] s = []"
| "match_alts (a # as) s =
     (case match_seq a s of None \<Rightarrow> match_alts as s | Some mr \<Rightarrow> mr # match_alts as s)"

text \<open>
  All the ways the groups match, in the order of a backtracking engine: the first
  alternative of a group with every continuation, then the second one.
\<close>

fun match_groups :: "char_class list list list \<Rightarrow> string \<Rightarrow> (string list \<times> string) list" where
  "match_groups [] s = [([], s)]"
| "match_groups (alts # gs) s =
     concat (map (\<lambda>mr. map (\<lambda>msr. (fst mr # fst msr, snd msr)) (match_groups gs (snd mr)))
               (match_alts alts s))"

text \<open>\<^verbatim>\<open>pattern.match\<close>: the first match, with the groups and the text left over.\<close>

definition re_match :: "char_class list list list \<Rightarrow> string \<Rightarrow> (string list \<times> string) option" where
  "re_match pat s = (case match_groups pat s of [] \<Rightarrow> None | x # _ \<Rightarrow> Some x)"

definition re_d :: "char_class list list" where
  "re_d = [[lit CHR ''3'', chr_range CHR ''0'' CHR ''1''],
           [chr_range CHR ''1'' CHR ''2'', ascii_digit],
           [lit CHR ''0'', chr_range CHR ''1'' CHR ''9''],
           [chr_range CHR ''1'' CHR ''9''],
           [lit CHR '' '', chr_range CHR ''1'' CHR ''9'']]"

definition re_m :: "char_class list list" where
  "re_m = [[lit CHR ''1'', chr_range CHR ''0'' CHR ''2''],
           [lit CHR ''0'', chr_range CHR ''1'' CHR ''9''],
           [chr_range CHR ''1'' CHR ''9'']]"

definition re_Y :: "char_class list list" where
  "re_Y = [[ascii_digit, ascii_digit, ascii_digit, ascii_digit]]"

definition re_dot :: "char_class list list" where
  "re_dot = [[lit CHR ''.'']]"

definition format_regex :: "char_class list list list" where
  "format_regex = [re_d, re_dot, re_m, re_dot, re_Y]"

text \<open>
  \<^verbatim>\<open>int(s)\<close> on a group of the match, that is on decimal digits after an optional
  space: leading blanks are dropped and the digits read in base ten.
\<close>

definition digit_val :: "char \<Rightarrow> int" where
  "digit_val c = int (ord c) - 48"

definition py_int :: "string \<Rightarrow> int" where
  "py_int s = foldl (\<lambda>a c. 10 * a + digit_val c) 0 (dropWhile (\<lambda>c. c = CHR '' '') s)"

record datetime =
  dt_year :: int
  dt_month :: int
  dt_day :: int
  hour :: int
  minute :: int
  second :: int
  microsecond :: int

text \<open>\<^verbatim>\<open>datetime.date()\<close>: the date part of a date with time.\<close>

definition datetime_date :: "datetime \<Rightarrow> date" where
  "datetime_date t = \<lparr>year = dt_year t, month = dt_month t, day = dt_day t\<rparr>"

text \<open>
  \<^verbatim>\<open>_strptime\<close> for the format \<^verbatim>\<open>%d.%m.%Y\<close>: no match, text left after the match,
  and a day that the month does not have (the \<^verbatim>\<open>datetime_date(year, month, day)\<close> of
  the function) each raise \<^verbatim>\<open>ValueError\<close>. The first two messages also quote the text;
  the caller below replaces the message. Groups 0, 2 and 4 of the match are \<^verbatim>\<open>d\<close>,
  \<^verbatim>\<open>m\<close> and \<^verbatim>\<open>Y\<close>.
\<close>

definition strptime :: "string \<Rightarrow> py_error + datetime" where
  "strptime data_string =
     (case re_match format_regex data_string of
        None \<Rightarrow> Inl (ValueError ''time data does not match format'')
      | Some (found, rest) \<Rightarrow>
          if rest \<noteq> [] then Inl (ValueError ''unconverted data remains'')
          else (case date_new (py_int (found ! 4)) (py_int (found ! 2)) (py_int (found ! 0)) of
                  Inl e \<Rightarrow> Inl e
                | Inr dt \<Rightarrow> Inr \<lparr>dt_year = year dt, dt_month = month dt, dt_day = day dt,
                                 hour = 0, minute = 0, second = 0, microsecond = 0\<rparr>))"

text \<open>
  \<^verbatim>\<open>date.strftime("%d.%m.%Y")\<close> hands the format to the C library: \<^verbatim>\<open>%d\<close> and
  \<^verbatim>\<open>%m\<close> are two digits, zero-padded; \<^verbatim>\<open>%Y\<close> is the year in decimal, which glibc
  does not pad (CPython before 3.13 on Linux prints year 999 as \<^verbatim>\<open>999\<close>).
\<close>

definition pad2 :: "int \<Rightarrow> string" where
  "pad2 n = (if n < 10 then CHR ''0'' # str_int n else str_int n)"

definition strftime :: "date \<Rightarrow> string" where
  "strftime dt = pad2 (day dt) @ ''.'' @ pad2 (month dt) @ ''.'' @ str_int (year dt)"

datatype Birthday = Birthday (birthday_value: date)

text \<open>
  \<^verbatim>\<open>Birthday.__validate_birthday\<close>: every \<^verbatim>\<open>ValueError\<close> of the parse is caught and
  raised again with the message of the class; another exception would pass through.
\<close>

definition validate_birthday :: "string \<Rightarrow> py_error + date" where
  "validate_birthday s =
     (case strptime s of
        Inr t \<Rightarrow> Inr (datetime_date t)
      | Inl (ValueError _) \<Rightarrow> Inl (ValueError ''Invalid date format. Use DD.MM.YYYY'')
      | Inl e \<Rightarrow> Inl e)"

definition Birthday_init :: "string \<Rightarrow> py_error + Birthday" where
  "Birthday_init s =
     (case validate_birthday s of Inl e \<Rightarrow> Inl e | Inr v \<Rightarrow> Inr (Birthday v))"

section \<open>Record\<close>

record Record =
  name :: Name
  phones :: "Phone list"
  birthday :: "Birthday option"

definition Record_init :: "string \<Rightarrow> Record" where
  "Record_init n = \<lparr>name = Name n, phones = [], birthday = None\<rparr>"

text \<open>
  \<^verbatim>\<open>list.index\<close> and \<^verbatim>\<open>list.remove\<close> stop at the first equal element and raise
  \<^verbatim>\<open>ValueError\<close> when there is none (the message of \<^verbatim>\<open>index\<close> also prints the
  element). \<^verbatim>\<open>Field\<close> defines no \<^verbatim>\<open>__eq__\<close>, so Python compares the objects by
  identity; the object looked for is always the first one of the list with its value
  (\<^verbatim>\<open>find_phone\<close> returned it), so the first element equal by value is at the same
  position.
\<close>

fun list_index :: "'a \<Rightarrow> 'a list \<Rightarrow> py_error + nat" where
  "list_index x [] = Inl (ValueError ''is not in list'')"
| "list_index x (y # ys) =
     (if y = x then Inr 0
      else (case list_index x ys of Inl e \<Rightarrow> Inl e | Inr i \<Rightarrow> Inr (Suc i)))"

fun list_remove :: "'a \<Rightarrow> 'a list \<Rightarrow> py_error + 'a list" where
  "list_remove x [] = Inl (ValueError ''list.remove(x): x not in list'')"
| "list_remove x (y # ys) =
     (if y = x then Inr ys
      else (case list_remove x ys of Inl e \<Rightarrow> Inl e | Inr zs \<Rightarrow> Inr (y # zs)))"

text \<open>The loop of \<^verbatim>\<open>Record.find_phone\<close> over \<^verbatim>\<open>self.phones\<close>.\<close>

fun find_phone_loop :: "string \<Rightarrow> Phone list \<Rightarrow> py_error + Phone" where
  "find_phone_loop phone [] = Inl (ValueError ''Phone number not found.'')"
| "find_phone_loop phone (p # ps) =
     (if phone_value p = phone then Inr p else find_phone_loop phone ps)"

definition find_phone :: "string \<Rightarrow> Record \<Rightarrow> py_error + Phone" where
  "find_phone phone self = find_phone_loop phone (phones self)"

text \<open>
  A method that changes the record returns the outcome of the call together with the
  record as the call leaves it: at a raise, the record with the assignments made so far.
\<close>

definition add_phone :: "string \<Rightarrow> Record \<Rightarrow> (py_error + unit) \<times> Record" where
  "add_phone phone self =
     (case Phone_init phone of
        Inl e \<Rightarrow> (Inl e, self)
      | Inr phone_obj \<Rightarrow> (Inr (), self\<lparr>phones := phones self @ [phone_obj]\<rparr>))"

definition remove_phone :: "string \<Rightarrow> Record \<Rightarrow> (py_error + unit) \<times> Record" where
  "remove_phone phone self =
     (case find_phone phone self of
        Inl e \<Rightarrow> (Inl e, self)
      | Inr phone_obj \<Rightarrow>
          (case list_remove phone_obj (phones self) of
             Inl e \<Rightarrow> (Inl e, self)
           | Inr ps \<Rightarrow> (Inr (), self\<lparr>phones := ps\<rparr>)))"

definition edit_phone :: "string \<Rightarrow> string \<Rightarrow> Record \<Rightarrow> (py_error + unit) \<times> Record" where
  "edit_phone old_phone new_phone self =
     (case find_phone old_phone self of
        Inl e \<Rightarrow> (Inl e, self)
      | Inr old_phone_obj \<Rightarrow>
          (case Phone_init new_phone of
             Inl e \<Rightarrow> (Inl e, self)
           | Inr new_phone_obj \<Rightarrow>
               (case list_index old_phone_obj (phones self) of
                  Inl e \<Rightarrow> (Inl e, self)
                | Inr index \<Rightarrow> (Inr (), self\<lparr>phones := (phones self)[index := new_phone_obj]\<rparr>))))"

definition add_birthday :: "string \<Rightarrow> Record \<Rightarrow> (py_error + unit) \<times> Record" where
  "add_birthday s self =
     (case Birthday_init s of
        Inl e \<Rightarrow> (Inl e, self)
      | Inr b \<Rightarrow> (Inr (), self\<lparr>birthday := Some b\<rparr>))"

text \<open>
  \<^verbatim>\<open>Record.days_to_birthday\<close>. The date \<^verbatim>\<open>datetime.now().date()\<close> is the parameter
  \<open>today\<close>. Both calls of \<^verbatim>\<open>replace\<close> can raise. A \<^verbatim>\<open>Birthday\<close> object is always
  true, so \<^verbatim>\<open>not self.birthday\<close> holds for \<^verbatim>\<open>None\<close> only.
\<close>

definition days_to_birthday :: "date \<Rightarrow> Record \<Rightarrow> py_error + int option" where
  "days_to_birthday today self =
     (case birthday self of
        None \<Rightarrow> Inr None
      | Some b \<Rightarrow>
          (case replace_year (birthday_value b) (year today) of
             Inl e \<Rightarrow> Inl e
           | Inr next_birthday \<Rightarrow>
               if date_lt next_birthday today
               then (case replace_year next_birthday (year today + 1) of
                       Inl e \<Rightarrow> Inl e
                     | Inr next_birthday' \<Rightarrow> Inr (Some (date_sub_days next_birthday' today)))
               else Inr (Some (date_sub_days next_birthday today))))"

text \<open>\<^verbatim>\<open>'; '.join\<close> and \<^verbatim>\<open>Record.__str__\<close>.\<close>

fun join :: "string \<Rightarrow> string list \<Rightarrow> string" where
  "join sep [] = []"
| "join sep [x] = x"
| "join sep (x # y # ys) = x @ sep @ join sep (y # ys)"

definition Record_str :: "Record \<Rightarrow> string" where
  "Record_str self =
     ''Contact name: '' @ name_value (name self)
     @ '', phones: '' @ join ''; '' (map phone_value (phones self))
     @ '', birthday: ''
     @ (case birthday self of None \<Rightarrow> ''No birthday'' | Some b \<Rightarrow> strftime (birthday_value b))"

section \<open>AddressBook\<close>

text \<open>
  \<^verbatim>\<open>UserDict.data\<close> is a \<^verbatim>\<open>dict\<close> from names to records: the list of its items in
  insertion order. Storing under a key that is present keeps the key's place; deleting or
  reading a key that is absent raises \<^verbatim>\<open>KeyError\<close>.
\<close>

type_synonym AddressBook = "(string \<times> Record) list"

definition dict_contains :: "'k \<Rightarrow> ('k \<times> 'v) list \<Rightarrow> bool" where
  "dict_contains k d \<longleftrightarrow> k \<in> set (map fst d)"

fun dict_setitem :: "'k \<Rightarrow> 'v \<Rightarrow> ('k \<times> 'v) list \<Rightarrow> ('k \<times> 'v) list" where
  "dict_setitem k v [] = [(k, v)]"
| "dict_setitem k v (kv # d) = (if fst kv = k then (k, v) # d else kv # dict_setitem k v d)"

definition dict_getitem :: "string \<Rightarrow> (string \<times> 'v) list \<Rightarrow> py_error + 'v" where
  "dict_getitem k d = (case map_of d k of None \<Rightarrow> Inl (KeyError k) | Some v \<Rightarrow> Inr v)"

definition dict_delitem :: "string \<Rightarrow> (string \<times> 'v) list \<Rightarrow> py_error + (string \<times> 'v) list" where
  "dict_delitem k d =
     (if dict_contains k d then Inr (filter (\<lambda>kv. fst kv \<noteq> k) d) else Inl (KeyError k))"

definition dict_values :: "('k \<times> 'v) list \<Rightarrow> 'v list" where
  "dict_values d = map snd d"

definition add_record :: "Record \<Rightarrow> AddressBook \<Rightarrow> AddressBook" where
  "add_record record book = dict_setitem (name_value (name record)) record book"

definition find_record :: "string \<Rightarrow> AddressBook \<Rightarrow> py_error + Record" where
  "find_record n book =
     (if dict_contains n book then dict_getitem n book
      else Inl (ValueError ''Record not found.''))"

definition delete :: "string \<Rightarrow> AddressBook \<Rightarrow> (py_error + unit) \<times> AddressBook" where
  "delete n book =
     (if dict_contains n book
      then (case dict_delitem n book of Inl e \<Rightarrow> (Inl e, book) | Inr d \<Rightarrow> (Inr (), d))
      else (Inl (ValueError ''Record not found.''), book))"

text \<open>
  The loop of \<^verbatim>\<open>AddressBook.get_upcoming_birthdays\<close> over \<^verbatim>\<open>self.data.values()\<close>,
  with the list \<^verbatim>\<open>upcoming_birthdays\<close> built so far. A raise of
  \<^verbatim>\<open>days_to_birthday\<close> is not caught and ends the call.
\<close>

fun upcoming_loop :: "date \<Rightarrow> int \<Rightarrow> Record list \<Rightarrow> Record list \<Rightarrow> py_error + Record list" where
  "upcoming_loop today days [] upcoming_birthdays = Inr upcoming_birthdays"
| "upcoming_loop today days (record # records) upcoming_birthdays =
     (if birthday record \<noteq> None
      then (case days_to_birthday today record of
              Inl e \<Rightarrow> Inl e
            | Inr days_to_birthday' \<Rightarrow>
                if days_to_birthday' \<noteq> None \<and> the days_to_birthday' \<le> days
                then upcoming_loop today days records (upcoming_birthdays @ [record])
                else upcoming_loop today days records upcoming_birthdays)
      else upcoming_loop today days records upcoming_birthdays)"

definition get_upcoming_birthdays :: "date \<Rightarrow> int \<Rightarrow> AddressBook \<Rightarrow> py_error + Record list" where
  "get_upcoming_birthdays today days book = upcoming_loop today days (dict_values book) []"

section \<open>Example records\<close>

definition three_phones :: Record where
  "three_phones = \<lparr>name = Name ''John'',
     phones = [Phone ''0937777777'', Phone ''5555555555'', Phone ''9876543210''],
     birthday = None\<rparr>"

definition john :: Record where
  "john = \<lparr>name = Name ''John'', phones = [Phone ''0937777777'', Phone ''5555555555''],
     birthday = Some (Birthday \<lparr>year = 1990, month = 12, day = 25\<rparr>)\<rparr>"

definition jane :: Record where
  "jane = \<lparr>name = Name ''Jane'', phones = [Phone ''9876543210''],
     birthday = Some (Birthday \<lparr>year = 1995, month = 1, day = 1\<rparr>)\<rparr>"

definition leap_day_record :: Record where
  "leap_day_record = \<lparr>name = Name ''Ann'', phones = [],
     birthday = Some (Birthday \<lparr>year = 2000, month = 2, day = 29\<rparr>)\<rparr>"

section \<open>Callers and invariants\<close>

text \<open>The phones of a record are all of the form that \<^verbatim>\<open>Phone\<close> accepts.\<close>

definition phones_valid :: "Record \<Rightarrow> bool" where
  "phones_valid r \<longleftrightarrow>
     list_all (\<lambda>p. length (phone_value p) = 10 \<and> list_all isdigit_char (phone_value p)) (phones r)"

text \<open>
  The invariant in the words of the spec: every phone of the record is exactly ten ASCII
  decimal digits.
\<close>

definition phones_ascii :: "Record \<Rightarrow> bool" where
  "phones_ascii r \<longleftrightarrow>
     list_all (\<lambda>p. length (phone_value p) = 10 \<and> list_all ascii_digit (phone_value p)) (phones r)"

text \<open>
  A caller that makes method calls on a record one after the other and catches the
  exception of a call that raises, as the spec asks of a command-line layer.
\<close>

datatype record_call = AddPhone string | RemovePhone string | EditPhone string string
  | AddBirthday string

fun call :: "record_call \<Rightarrow> Record \<Rightarrow> (py_error + unit) \<times> Record" where
  "call (AddPhone p) r = add_phone p r"
| "call (RemovePhone p) r = remove_phone p r"
| "call (EditPhone old new) r = edit_phone old new r"
| "call (AddBirthday b) r = add_birthday b r"

fun run_calls :: "record_call list \<Rightarrow> Record \<Rightarrow> Record" where
  "run_calls [] r = r"
| "run_calls (c # cs) r = run_calls cs (snd (call c r))"

section \<open>What the date pattern accepts\<close>

text \<open>
  A text matches an alternative when it has one character for each class, each in its
  class; it matches a group when it matches one of the alternatives.
\<close>

definition alt_matches :: "char_class list \<Rightarrow> string \<Rightarrow> bool" where
  "alt_matches a m \<longleftrightarrow> list_all2 (\<lambda>p c. p c) a m"

definition group_matches :: "char_class list list \<Rightarrow> string \<Rightarrow> bool" where
  "group_matches alts m \<longleftrightarrow> (\<exists>a \<in> set alts. alt_matches a m)"

text \<open>
  The day of a date text: one decimal digit, or two characters, a decimal digit or a
  space and then a decimal digit. The month: one or two decimal digits. The year: four
  decimal digits.
\<close>

definition day_text :: "string \<Rightarrow> bool" where
  "day_text ds \<longleftrightarrow>
     (case ds of [a] \<Rightarrow> ascii_digit a
      | [a, b] \<Rightarrow> (ascii_digit a \<or> a = CHR '' '') \<and> ascii_digit b
      | _ \<Rightarrow> False)"

definition month_text :: "string \<Rightarrow> bool" where
  "month_text ms \<longleftrightarrow>
     (case ms of [a] \<Rightarrow> ascii_digit a | [a, b] \<Rightarrow> ascii_digit a \<and> ascii_digit b | _ \<Rightarrow> False)"

definition year_text :: "string \<Rightarrow> bool" where
  "year_text ys \<longleftrightarrow> length ys = 4 \<and> list_all ascii_digit ys"

text \<open>
  The texts that \<^verbatim>\<open>Birthday\<close> accepts, with the date each one denotes: day, month
  and year as above, separated by full stops, the numbers read in base ten (a leading space
  of the day dropped), and the three numbers a date of the calendar.
\<close>

definition lenient_dmy :: "string \<Rightarrow> date \<Rightarrow> bool" where
  "lenient_dmy s dt \<longleftrightarrow>
     (\<exists>ds ms ys. s = ds @ ''.'' @ ms @ ''.'' @ ys \<and> day_text ds \<and> month_text ms \<and> year_text ys
        \<and> dt = \<lparr>year = py_int ys, month = py_int ms, day = py_int ds\<rparr> \<and> valid_date dt)"

text \<open>
  The strict pattern of the spec: two digits, a full stop, two digits, a full stop, four
  digits, and nothing else.
\<close>

definition strict_dmy :: "string \<Rightarrow> bool" where
  "strict_dmy s \<longleftrightarrow> length s = 10 \<and> s ! 2 = CHR ''.'' \<and> s ! 5 = CHR ''.''
     \<and> list_all ascii_digit (take 2 s) \<and> list_all ascii_digit (take 2 (drop 3 s))
     \<and> list_all ascii_digit (drop 6 s)"

text \<open>
  A record is upcoming when it has a birthday and \<^verbatim>\<open>days_to_birthday\<close> returns a
  number of days within the window.
\<close>

definition upcoming :: "date \<Rightarrow> int \<Rightarrow> Record \<Rightarrow> bool" where
  "upcoming today days r \<longleftrightarrow>
     birthday r \<noteq> None \<and> (\<exists>n. days_to_birthday today r = Inr (Some n) \<and> n \<le> days)"

section \<open>Phone validation\<close>

lemma ascii_digit_isdigit_char: "ascii_digit c \<Longrightarrow> isdigit_char c"
  by (simp add: ascii_digit_def isdigit_char_def)

lemma isdigit_length_10: "length s = 10 \<Longrightarrow> isdigit s \<longleftrightarrow> list_all isdigit_char s"
  by (auto simp: isdigit_def)

text \<open>
  Claim C1, as stated: \<^verbatim>\<open>Phone(s)\<close> succeeds if and only if \<open>s\<close> is exactly ten ASCII
  decimal digits. It fails on the code: \<^verbatim>\<open>str.isdigit\<close> also accepts the superscript
  digits, so the text of ten characters \<^verbatim>\<open>U+00B2\<close> (superscript two) is stored as a
  phone although none of its characters is an ASCII digit.
\<close>

theorem Phone_ascii_only_counterexample:
  "Phone_init (replicate 10 (CHR 0xB2)) = Inr (Phone (replicate 10 (CHR 0xB2)))
   \<and> \<not> (length (replicate 10 (CHR 0xB2)) = 10 \<and> list_all ascii_digit (replicate 10 (CHR 0xB2)))"
  by code_simp

text \<open>
  Claim C1, amended: \<^verbatim>\<open>Phone(s)\<close> succeeds if and only if \<open>s\<close> has exactly ten
  characters and each one is a digit for \<^verbatim>\<open>str.isdigit\<close>; on success the stored value
  is \<open>s\<close>. A text whose length is not ten fails with the length message, whatever its
  characters; a text of ten characters with one that is not a digit fails with the digits
  message. Every text of ten ASCII decimal digits is accepted.
\<close>

theorem Phone_init_spec:
  "((\<exists>p. Phone_init s = Inr p) \<longleftrightarrow> length s = 10 \<and> list_all isdigit_char s)
   \<and> (\<forall>p. Phone_init s = Inr p \<longrightarrow> phone_value p = s)
   \<and> (length s \<noteq> 10 \<longrightarrow>
        Phone_init s = Inl (ValueError ''The phone number must contain 10 digits''))
   \<and> (length s = 10 \<and> \<not> list_all isdigit_char s \<longrightarrow>
        Phone_init s = Inl (ValueError ''The phone number must contain only numbers''))
   \<and> (length s = 10 \<and> list_all ascii_digit s \<longrightarrow> Phone_init s = Inr (Phone s))"
proof -
  have ascii: "list_all ascii_digit s \<Longrightarrow> list_all isdigit_char s"
    by (simp add: list_all_iff ascii_digit_isdigit_char)
  show ?thesis
    using ascii
    by (cases "length s = 10")
       (auto simp: Phone_init_def validate_phone_def isdigit_length_10 isdigit_def)
qed

theorem Phone_init_spec_witness:
  "length ''0937777777'' = 10 \<and> list_all ascii_digit ''0937777777''
   \<and> Phone_init ''0937777777'' = Inr (Phone ''0937777777'')
   \<and> length ''123'' \<noteq> 10
   \<and> Phone_init ''123'' = Inl (ValueError ''The phone number must contain 10 digits'')
   \<and> length ''12345678ab'' = 10 \<and> \<not> list_all isdigit_char ''12345678ab''
   \<and> Phone_init ''12345678ab'' = Inl (ValueError ''The phone number must contain only numbers'')"
  using Phone_init_spec [of "''0937777777''"] Phone_init_spec [of "''123''"]
    Phone_init_spec [of "''12345678ab''"]
  by (simp add: ascii_digit_def isdigit_char_def ord_def)

section \<open>Failed calls\<close>

text \<open>
  Claim C5: a call of \<^verbatim>\<open>add_phone\<close>, \<^verbatim>\<open>add_birthday\<close> or \<^verbatim>\<open>edit_phone\<close> that
  raises leaves the record as it was: the lookup and the validation come before the one
  assignment of each method.
\<close>

theorem failed_call_leaves_record_unchanged:
  "(isl (fst (add_phone p r)) \<longrightarrow> snd (add_phone p r) = r)
   \<and> (isl (fst (add_birthday b r)) \<longrightarrow> snd (add_birthday b r) = r)
   \<and> (isl (fst (edit_phone old new r)) \<longrightarrow> snd (edit_phone old new r) = r)"
  by (auto simp: add_phone_def add_birthday_def edit_phone_def split: sum.splits)

theorem failed_call_leaves_record_unchanged_witness:
  "isl (fst (add_phone ''123'' (Record_init ''John'')))
   \<and> snd (add_phone ''123'' (Record_init ''John'')) = Record_init ''John''
   \<and> isl (fst (add_birthday ''1990-12-25'' (Record_init ''John'')))
   \<and> snd (add_birthday ''1990-12-25'' (Record_init ''John'')) = Record_init ''John''
   \<and> isl (fst (edit_phone ''0937777777'' ''0936666666'' (Record_init ''John'')))
   \<and> snd (edit_phone ''0937777777'' ''0936666666'' (Record_init ''John'')) = Record_init ''John''"
proof -
  have a: "isl (fst (add_phone ''123'' (Record_init ''John'')))"
    by code_simp
  have b: "isl (fst (add_birthday ''1990-12-25'' (Record_init ''John'')))"
    by code_simp
  have c: "isl (fst (edit_phone ''0937777777'' ''0936666666'' (Record_init ''John'')))"
    by code_simp
  show ?thesis
    using a b c
      failed_call_leaves_record_unchanged [of "''123''" "Record_init ''John''" "''1990-12-25''"
        "''0937777777''" "''0936666666''"]
    by simp
qed

section \<open>Editing a phone\<close>

text \<open>
  When a phone of the list has the value looked for, the list splits at the first such
  phone; \<^verbatim>\<open>find_phone\<close> returns that phone and \<^verbatim>\<open>index\<close> its position.
\<close>

lemma find_first_phone:
  "old \<in> set (map phone_value ps) \<Longrightarrow>
   \<exists>pre post. ps = pre @ Phone old # post \<and> old \<notin> set (map phone_value pre)
     \<and> find_phone_loop old ps = Inr (Phone old)
     \<and> list_index (Phone old) ps = Inr (length pre)"
proof (induction ps)
  case Nil
  then show ?case by simp
next
  case (Cons p ps)
  show ?case
  proof (cases "phone_value p = old")
    case True
    then have "p = Phone old" by (cases p) simp
    then have "p # ps = [] @ Phone old # ps \<and> old \<notin> set (map phone_value [])
       \<and> find_phone_loop old (p # ps) = Inr (Phone old)
       \<and> list_index (Phone old) (p # ps) = Inr (length ([] :: Phone list))"
      by simp
    then show ?thesis by blast
  next
    case False
    with Cons.prems have "old \<in> set (map phone_value ps)" by auto
    from Cons.IH [OF this] obtain pre post where
      h: "ps = pre @ Phone old # post" "old \<notin> set (map phone_value pre)"
         "find_phone_loop old ps = Inr (Phone old)"
         "list_index (Phone old) ps = Inr (length pre)"
      by blast
    from False have ne: "p \<noteq> Phone old" by auto
    have "p # ps = (p # pre) @ Phone old # post \<and> old \<notin> set (map phone_value (p # pre))
       \<and> find_phone_loop old (p # ps) = Inr (Phone old)
       \<and> list_index (Phone old) (p # ps) = Inr (length (p # pre))"
      using h False ne by simp
    then show ?thesis by blast
  qed
qed

lemma find_phone_loop_absent:
  "old \<notin> set (map phone_value ps) \<Longrightarrow>
   find_phone_loop old ps = Inl (ValueError ''Phone number not found.'')"
  by (induction ps) auto

text \<open>
  Claim C6: when a phone of the record has the value \<open>old\<close> and \<open>new\<close> is valid,
  \<^verbatim>\<open>edit_phone(old, new)\<close> puts the new phone where the first phone with value \<open>old\<close>
  was; the phones before and after it, the name and the birthday stay. When no phone has
  the value \<open>old\<close> the call raises the not-found error.
\<close>

theorem edit_phone_positional:
  "(old \<in> set (map phone_value (phones r)) \<and> Phone_init new = Inr np \<longrightarrow>
      (\<exists>pre post. phones r = pre @ [Phone old] @ post \<and> old \<notin> set (map phone_value pre)
         \<and> edit_phone old new r = (Inr (), r\<lparr>phones := pre @ [np] @ post\<rparr>)))
   \<and> (old \<notin> set (map phone_value (phones r)) \<longrightarrow>
      edit_phone old new r = (Inl (ValueError ''Phone number not found.''), r))"
proof (intro conjI impI)
  assume a: "old \<in> set (map phone_value (phones r)) \<and> Phone_init new = Inr np"
  from find_first_phone [of old "phones r"] a obtain pre post where
    h: "phones r = pre @ Phone old # post" "old \<notin> set (map phone_value pre)"
       "find_phone_loop old (phones r) = Inr (Phone old)"
       "list_index (Phone old) (phones r) = Inr (length pre)"
    by blast
  have "(phones r)[length pre := np] = pre @ [np] @ post"
    using h(1) by simp
  then have "edit_phone old new r = (Inr (), r\<lparr>phones := pre @ [np] @ post\<rparr>)"
    using a h(3,4) by (simp add: edit_phone_def find_phone_def)
  with h(1,2) show "\<exists>pre post. phones r = pre @ [Phone old] @ post
      \<and> old \<notin> set (map phone_value pre)
      \<and> edit_phone old new r = (Inr (), r\<lparr>phones := pre @ [np] @ post\<rparr>)"
    by auto
next
  assume "old \<notin> set (map phone_value (phones r))"
  then show "edit_phone old new r = (Inl (ValueError ''Phone number not found.''), r)"
    by (simp add: edit_phone_def find_phone_def find_phone_loop_absent)
qed

theorem edit_phone_positional_witness:
  "edit_phone ''5555555555'' ''0936666666'' three_phones
     = (Inr (), three_phones\<lparr>phones :=
          [Phone ''0937777777'', Phone ''0936666666'', Phone ''9876543210'']\<rparr>)
   \<and> edit_phone ''0000000000'' ''0936666666'' three_phones
     = (Inl (ValueError ''Phone number not found.''), three_phones)"
proof -
  have v: "Phone_init ''0936666666'' = Inr (Phone ''0936666666'')"
    by code_simp
  have m: "''5555555555'' \<in> set (map phone_value (phones three_phones))"
    by (simp add: three_phones_def)
  have n: "''0000000000'' \<notin> set (map phone_value (phones three_phones))"
    by (simp add: three_phones_def)
  from edit_phone_positional [of "''5555555555''" three_phones "''0936666666''"
      "Phone ''0936666666''"] v m
  obtain pre post where
    h: "phones three_phones = pre @ [Phone ''5555555555''] @ post"
       "''5555555555'' \<notin> set (map phone_value pre)"
       "edit_phone ''5555555555'' ''0936666666'' three_phones
          = (Inr (), three_phones\<lparr>phones := pre @ [Phone ''0936666666''] @ post\<rparr>)"
    by blast
  from h(1,2) have "pre = [Phone ''0937777777''] \<and> post = [Phone ''9876543210'']"
    by (auto simp: three_phones_def append_eq_Cons_conv Cons_eq_append_conv)
  with h(3) show ?thesis
    using edit_phone_positional [of "''0000000000''" three_phones "''0936666666''"] n
    by simp
qed

section \<open>The phones of a record\<close>

lemma Phone_init_valid:
  "Phone_init s = Inr p \<Longrightarrow> length (phone_value p) = 10 \<and> list_all isdigit_char (phone_value p)"
  by (auto simp: Phone_init_def validate_phone_def isdigit_def split: if_splits)

lemma list_remove_subset: "list_remove x xs = Inr ys \<Longrightarrow> set ys \<subseteq> set xs"
  by (induction xs arbitrary: ys) (auto split: if_splits sum.splits)

lemma add_phone_valid: "phones_valid r \<Longrightarrow> phones_valid (snd (add_phone p r))"
  by (auto simp: add_phone_def phones_valid_def split: sum.splits dest: Phone_init_valid)

lemma remove_phone_valid: "phones_valid r \<Longrightarrow> phones_valid (snd (remove_phone p r))"
  by (auto simp: remove_phone_def phones_valid_def list_all_iff split: sum.splits
        dest!: list_remove_subset)

lemma edit_phone_valid: "phones_valid r \<Longrightarrow> phones_valid (snd (edit_phone old new r))"
  by (auto simp: edit_phone_def phones_valid_def list_all_iff split: sum.splits
        dest: Phone_init_valid dest!: set_update_subset_insert [THEN subsetD])

lemma add_birthday_valid: "phones_valid r \<Longrightarrow> phones_valid (snd (add_birthday b r))"
  by (auto simp: add_birthday_def phones_valid_def split: sum.splits)

lemma call_valid: "phones_valid r \<Longrightarrow> phones_valid (snd (call c r))"
  by (cases c) (simp_all add: add_phone_valid remove_phone_valid edit_phone_valid add_birthday_valid)

lemma run_calls_valid: "phones_valid r \<Longrightarrow> phones_valid (run_calls cs r)"
  by (induction cs arbitrary: r) (simp_all add: call_valid)

text \<open>
  Claim C9, as stated: every phone stored in a record is a string of exactly ten digits,
  which the spec reads as ASCII digits. It fails on the code: \<^verbatim>\<open>add_phone\<close> with
  ten characters \<^verbatim>\<open>U+00B2\<close> returns, and the record then holds a phone none of whose
  characters is an ASCII digit.
\<close>

theorem phones_ascii_counterexample:
  "phones_ascii (Record_init ''John'')
   \<and> fst (add_phone (replicate 10 (CHR 0xB2)) (Record_init ''John'')) = Inr ()
   \<and> phones (snd (add_phone (replicate 10 (CHR 0xB2)) (Record_init ''John'')))
       = [Phone (replicate 10 (CHR 0xB2))]
   \<and> \<not> phones_ascii (snd (add_phone (replicate 10 (CHR 0xB2)) (Record_init ''John'')))"
  by code_simp

text \<open>
  Claim C9, amended: every phone in the list of a record has exactly ten characters, each
  of them a digit for \<^verbatim>\<open>str.isdigit\<close>, the check of the constructor. The methods
  \<^verbatim>\<open>add_phone\<close>, \<^verbatim>\<open>remove_phone\<close> and \<^verbatim>\<open>edit_phone\<close> keep it so, whether
  they return or raise, and it holds of every record that a caller builds from
  \<^verbatim>\<open>Record(name)\<close> by calling the methods.
\<close>

theorem phones_stay_valid:
  "(phones_valid r \<longrightarrow> phones_valid (snd (add_phone p r))
        \<and> phones_valid (snd (remove_phone p r))
        \<and> phones_valid (snd (edit_phone old new r)))
   \<and> phones_valid (run_calls cs (Record_init n))"
proof -
  have "phones_valid (Record_init n)"
    by (simp add: phones_valid_def Record_init_def)
  then show ?thesis
    by (simp add: add_phone_valid remove_phone_valid edit_phone_valid run_calls_valid)
qed

theorem phones_stay_valid_witness:
  "phones_valid three_phones
   \<and> phones_valid (snd (add_phone ''0934563292'' three_phones))
   \<and> phones_valid (snd (remove_phone ''5555555555'' three_phones))
   \<and> phones_valid (snd (edit_phone ''5555555555'' ''0936666666'' three_phones))
   \<and> phones_valid (run_calls [AddPhone ''0937777777'', AddPhone ''12345678ab'',
        EditPhone ''0937777777'' ''0936666666'', RemovePhone ''0936666666''] (Record_init ''John''))"
proof -
  have "phones_valid three_phones"
    by (simp add: phones_valid_def three_phones_def isdigit_char_def ord_def)
  then show ?thesis
    using phones_stay_valid [of three_phones "''0934563292''" "''5555555555''" "''0936666666''"
        "[AddPhone ''0937777777'', AddPhone ''12345678ab'',
          EditPhone ''0937777777'' ''0936666666'', RemovePhone ''0936666666'']" "''John''"]
      phones_stay_valid [of three_phones "''5555555555''"]
    by simp
qed

section \<open>The type of the failures\<close>

lemma date_new_ValueError: "date_new y m d = Inl e \<Longrightarrow> \<exists>msg. e = ValueError msg"
  by (auto simp: date_new_def split: if_splits)

lemma strptime_ValueError: "strptime s = Inl e \<Longrightarrow> \<exists>msg. e = ValueError msg"
  by (auto simp: strptime_def split: option.splits if_splits sum.splits prod.splits
      dest: date_new_ValueError)

lemma validate_birthday_error:
  "validate_birthday s = Inl e \<Longrightarrow> e = ValueError ''Invalid date format. Use DD.MM.YYYY''"
  by (auto simp: validate_birthday_def split: sum.splits py_error.splits
      dest: strptime_ValueError)

lemma Birthday_init_error:
  "Birthday_init s = Inl e \<Longrightarrow> e = ValueError ''Invalid date format. Use DD.MM.YYYY''"
  by (auto simp: Birthday_init_def split: sum.splits dest: validate_birthday_error)

lemma Phone_init_ValueError: "Phone_init s = Inl e \<Longrightarrow> \<exists>msg. e = ValueError msg"
  by (auto simp: Phone_init_def validate_phone_def split: if_splits sum.splits)

lemma find_phone_loop_ValueError:
  "find_phone_loop p ps = Inl e \<Longrightarrow> e = ValueError ''Phone number not found.''"
  by (induction ps) (auto split: if_splits)

lemma list_index_ValueError: "list_index x xs = Inl e \<Longrightarrow> \<exists>msg. e = ValueError msg"
  by (induction xs arbitrary: e) (auto split: if_splits sum.splits)

lemma list_remove_ValueError: "list_remove x xs = Inl e \<Longrightarrow> \<exists>msg. e = ValueError msg"
  by (induction xs arbitrary: e) (auto split: if_splits sum.splits)

lemma dict_getitem_present: "dict_contains k d \<Longrightarrow> \<exists>v. dict_getitem k d = Inr v"
  by (cases "map_of d k") (auto simp: dict_contains_def dict_getitem_def map_of_eq_None_iff)

lemma days_to_birthday_ValueError:
  "days_to_birthday today r = Inl e \<Longrightarrow> \<exists>msg. e = ValueError msg"
  by (auto simp: days_to_birthday_def replace_year_def split: option.splits sum.splits if_splits
      dest: date_new_ValueError)

lemma upcoming_loop_ValueError:
  "upcoming_loop today days rs acc = Inl e \<Longrightarrow> \<exists>msg. e = ValueError msg"
  by (induction rs arbitrary: acc)
     (auto split: if_splits sum.splits dest: days_to_birthday_ValueError)

lemma find_phone_absent:
  "s \<notin> set (map phone_value (phones r)) \<Longrightarrow>
   find_phone s r = Inl (ValueError ''Phone number not found.'')"
  by (simp add: find_phone_def find_phone_loop_absent)

lemma Phone_init_invalid:
  "\<not> (length s = 10 \<and> list_all isdigit_char s) \<Longrightarrow> \<exists>msg. Phone_init s = Inl (ValueError msg)"
  by (auto simp: Phone_init_def validate_phone_def isdigit_def)

lemma Birthday_init_not_success:
  "\<forall>dt. Birthday_init s \<noteq> Inr (Birthday dt) \<Longrightarrow>
   Birthday_init s = Inl (ValueError ''Invalid date format. Use DD.MM.YYYY'')"
proof (cases "Birthday_init s")
  case (Inl e)
  then show ?thesis using Birthday_init_error [of s e] by simp
next
  case (Inr b)
  assume "\<forall>dt. Birthday_init s \<noteq> Inr (Birthday dt)"
  with Inr show ?thesis by (cases b) auto
qed

text \<open>
  Claim C10: every failure of the public interface is raised as a \<^verbatim>\<open>ValueError\<close>.
  Whatever exception a call raises is a \<^verbatim>\<open>ValueError\<close>, and the calls that the
  claim lists do fail that way: a phone or a birthday that is not valid, also through
  \<^verbatim>\<open>add_phone\<close>, \<^verbatim>\<open>add_birthday\<close> and the new value of \<^verbatim>\<open>edit_phone\<close>;
  \<^verbatim>\<open>find_phone\<close>, \<^verbatim>\<open>remove_phone\<close> and \<^verbatim>\<open>edit_phone\<close> on a phone that the
  record does not have; \<^verbatim>\<open>find\<close> and \<^verbatim>\<open>delete\<close> on a name that is not in the book.
  So the type of the exception does not tell a validation failure from a not-found
  failure. No \<^verbatim>\<open>KeyError\<close> of the dictionary gets out: the membership test comes
  first.
\<close>

theorem every_failure_is_ValueError:
  "(Phone_init s = Inl e \<longrightarrow> (\<exists>msg. e = ValueError msg))
   \<and> (Birthday_init s = Inl e \<longrightarrow> (\<exists>msg. e = ValueError msg))
   \<and> (fst (add_phone s r) = Inl e \<longrightarrow> (\<exists>msg. e = ValueError msg))
   \<and> (fst (add_birthday s r) = Inl e \<longrightarrow> (\<exists>msg. e = ValueError msg))
   \<and> (find_phone s r = Inl e \<longrightarrow> (\<exists>msg. e = ValueError msg))
   \<and> (fst (remove_phone s r) = Inl e \<longrightarrow> (\<exists>msg. e = ValueError msg))
   \<and> (fst (edit_phone s s' r) = Inl e \<longrightarrow> (\<exists>msg. e = ValueError msg))
   \<and> (days_to_birthday today r = Inl e \<longrightarrow> (\<exists>msg. e = ValueError msg))
   \<and> (find_record s book = Inl e \<longrightarrow> (\<exists>msg. e = ValueError msg))
   \<and> (fst (delete s book) = Inl e \<longrightarrow> (\<exists>msg. e = ValueError msg))
   \<and> (get_upcoming_birthdays today days book = Inl e \<longrightarrow> (\<exists>msg. e = ValueError msg))
   \<and> (\<not> (length s = 10 \<and> list_all isdigit_char s) \<longrightarrow>
        (\<exists>msg. Phone_init s = Inl (ValueError msg))
        \<and> (\<exists>msg. fst (add_phone s r) = Inl (ValueError msg)))
   \<and> ((\<forall>dt. Birthday_init s \<noteq> Inr (Birthday dt)) \<longrightarrow>
        Birthday_init s = Inl (ValueError ''Invalid date format. Use DD.MM.YYYY'')
        \<and> fst (add_birthday s r) = Inl (ValueError ''Invalid date format. Use DD.MM.YYYY''))
   \<and> (s \<notin> set (map phone_value (phones r)) \<longrightarrow>
        find_phone s r = Inl (ValueError ''Phone number not found.'')
        \<and> fst (remove_phone s r) = Inl (ValueError ''Phone number not found.'')
        \<and> fst (edit_phone s s' r) = Inl (ValueError ''Phone number not found.''))
   \<and> (s \<in> set (map phone_value (phones r))
        \<and> \<not> (length s' = 10 \<and> list_all isdigit_char s') \<longrightarrow>
        (\<exists>msg. fst (edit_phone s s' r) = Inl (ValueError msg)))
   \<and> (s \<notin> set (map fst book) \<longrightarrow>
        find_record s book = Inl (ValueError ''Record not found.'')
        \<and> fst (delete s book) = Inl (ValueError ''Record not found.''))"
proof -
  have 1: "Phone_init s = Inl e \<longrightarrow> (\<exists>msg. e = ValueError msg)"
    by (auto dest: Phone_init_ValueError)
  have 2: "Birthday_init s = Inl e \<longrightarrow> (\<exists>msg. e = ValueError msg)"
    by (auto dest: Birthday_init_error)
  have 3: "fst (add_phone s r) = Inl e \<longrightarrow> (\<exists>msg. e = ValueError msg)"
    by (auto simp: add_phone_def split: sum.splits dest: Phone_init_ValueError)
  have 4: "fst (add_birthday s r) = Inl e \<longrightarrow> (\<exists>msg. e = ValueError msg)"
    by (auto simp: add_birthday_def split: sum.splits dest: Birthday_init_error)
  have 5: "find_phone s r = Inl e \<longrightarrow> (\<exists>msg. e = ValueError msg)"
    by (auto simp: find_phone_def dest: find_phone_loop_ValueError)
  have 6: "fst (remove_phone s r) = Inl e \<longrightarrow> (\<exists>msg. e = ValueError msg)"
    by (auto simp: remove_phone_def find_phone_def split: sum.splits
        dest: find_phone_loop_ValueError list_remove_ValueError)
  have 7: "fst (edit_phone s s' r) = Inl e \<longrightarrow> (\<exists>msg. e = ValueError msg)"
    by (auto simp: edit_phone_def find_phone_def split: sum.splits
        dest: find_phone_loop_ValueError list_index_ValueError Phone_init_ValueError)
  have 8: "days_to_birthday today r = Inl e \<longrightarrow> (\<exists>msg. e = ValueError msg)"
    by (auto dest: days_to_birthday_ValueError)
  have 9: "find_record s book = Inl e \<longrightarrow> (\<exists>msg. e = ValueError msg)"
    using dict_getitem_present [of s book] by (auto simp: find_record_def split: if_splits)
  have 10: "fst (delete s book) = Inl e \<longrightarrow> (\<exists>msg. e = ValueError msg)"
    by (auto simp: delete_def dict_delitem_def split: if_splits)
  have 11: "get_upcoming_birthdays today days book = Inl e \<longrightarrow> (\<exists>msg. e = ValueError msg)"
    by (auto simp: get_upcoming_birthdays_def dest: upcoming_loop_ValueError)
  have 12: "\<not> (length s = 10 \<and> list_all isdigit_char s) \<longrightarrow>
        (\<exists>msg. Phone_init s = Inl (ValueError msg))
        \<and> (\<exists>msg. fst (add_phone s r) = Inl (ValueError msg))"
    using Phone_init_invalid [of s] by (auto simp: add_phone_def)
  have 13: "(\<forall>dt. Birthday_init s \<noteq> Inr (Birthday dt)) \<longrightarrow>
        Birthday_init s = Inl (ValueError ''Invalid date format. Use DD.MM.YYYY'')
        \<and> fst (add_birthday s r) = Inl (ValueError ''Invalid date format. Use DD.MM.YYYY'')"
    using Birthday_init_not_success [of s] by (auto simp: add_birthday_def)
  have 14: "s \<notin> set (map phone_value (phones r)) \<longrightarrow>
        find_phone s r = Inl (ValueError ''Phone number not found.'')
        \<and> fst (remove_phone s r) = Inl (ValueError ''Phone number not found.'')
        \<and> fst (edit_phone s s' r) = Inl (ValueError ''Phone number not found.'')"
    using find_phone_absent [of s r] by (auto simp: remove_phone_def edit_phone_def)
  have 15: "s \<in> set (map phone_value (phones r))
        \<and> \<not> (length s' = 10 \<and> list_all isdigit_char s') \<longrightarrow>
        (\<exists>msg. fst (edit_phone s s' r) = Inl (ValueError msg))"
  proof
    assume a: "s \<in> set (map phone_value (phones r))
        \<and> \<not> (length s' = 10 \<and> list_all isdigit_char s')"
    with find_first_phone [of s "phones r"] have "find_phone s r = Inr (Phone s)"
      by (auto simp: find_phone_def)
    moreover from a Phone_init_invalid [of s'] obtain msg where
      "Phone_init s' = Inl (ValueError msg)" by blast
    ultimately show "\<exists>msg. fst (edit_phone s s' r) = Inl (ValueError msg)"
      by (simp add: edit_phone_def)
  qed
  have 16: "s \<notin> set (map fst book) \<longrightarrow>
        find_record s book = Inl (ValueError ''Record not found.'')
        \<and> fst (delete s book) = Inl (ValueError ''Record not found.'')"
    by (simp add: find_record_def delete_def dict_contains_def)
  show ?thesis
    using 1 2 3 4 5 6 7 8 9 10 11 12 13 14 15 16 by blast
qed


theorem every_failure_is_ValueError_witness:
  "''0000000000'' \<notin> set (map phone_value (phones john))
   \<and> find_phone ''0000000000'' john = Inl (ValueError ''Phone number not found.'')
   \<and> fst (remove_phone ''0000000000'' john) = Inl (ValueError ''Phone number not found.'')
   \<and> fst (edit_phone ''0000000000'' ''0936666666'' john)
       = Inl (ValueError ''Phone number not found.'')
   \<and> ''0937777777'' \<in> set (map phone_value (phones john))
   \<and> \<not> (length ''12345678ab'' = 10 \<and> list_all isdigit_char ''12345678ab'')
   \<and> (\<exists>msg. fst (edit_phone ''0937777777'' ''12345678ab'' john) = Inl (ValueError msg))
   \<and> (\<exists>msg. Phone_init ''12345678ab'' = Inl (ValueError msg))
   \<and> (\<exists>msg. fst (add_phone ''12345678ab'' john) = Inl (ValueError msg))
   \<and> (\<forall>dt. Birthday_init ''1990-12-25'' \<noteq> Inr (Birthday dt))
   \<and> fst (add_birthday ''1990-12-25'' john)
       = Inl (ValueError ''Invalid date format. Use DD.MM.YYYY'')
   \<and> ''Bob'' \<notin> set (map fst [(''John'', john)])
   \<and> find_record ''Bob'' [(''John'', john)] = Inl (ValueError ''Record not found.'')
   \<and> fst (delete ''Bob'' [(''John'', john)]) = Inl (ValueError ''Record not found.'')
   \<and> days_to_birthday \<lparr>year = 2024, month = 3, day = 1\<rparr> leap_day_record
       = Inl (ValueError ''day is out of range for month'')
   \<and> get_upcoming_birthdays \<lparr>year = 2023, month = 6, day = 1\<rparr> 7 [(''Ann'', leap_day_record)]
       = Inl (ValueError ''day is out of range for month'')
   \<and> (\<exists>msg. ValueError ''day is out of range for month'' = ValueError msg)"
proof -
  have a: "''0000000000'' \<notin> set (map phone_value (phones john))"
    by (simp add: john_def)
  have b: "''0937777777'' \<in> set (map phone_value (phones john))"
    by (simp add: john_def)
  have c: "\<not> (length ''12345678ab'' = 10 \<and> list_all isdigit_char ''12345678ab'')"
    by (simp add: isdigit_char_def ord_def)
  have "Birthday_init ''1990-12-25'' = Inl (ValueError ''Invalid date format. Use DD.MM.YYYY'')"
    by code_simp
  then have d: "\<forall>dt. Birthday_init ''1990-12-25'' \<noteq> Inr (Birthday dt)"
    by simp
  have e: "''Bob'' \<notin> set (map fst [(''John'', john)])"
    by simp
  have f: "days_to_birthday \<lparr>year = 2024, month = 3, day = 1\<rparr> leap_day_record
       = Inl (ValueError ''day is out of range for month'')"
    by code_simp
  have g: "get_upcoming_birthdays \<lparr>year = 2023, month = 6, day = 1\<rparr> 7 [(''Ann'', leap_day_record)]
       = Inl (ValueError ''day is out of range for month'')"
    by code_simp
  note t1 = every_failure_is_ValueError [where s = "''0000000000''" and s' = "''0936666666''"
      and r = john]
  note t2 = every_failure_is_ValueError [where s = "''0937777777''" and s' = "''12345678ab''"
      and r = john]
  note t3 = every_failure_is_ValueError [where s = "''12345678ab''" and r = john]
  note t4 = every_failure_is_ValueError [where s = "''1990-12-25''" and r = john]
  note t5 = every_failure_is_ValueError [where s = "''Bob''" and book = "[(''John'', john)]"]
  note t6 = every_failure_is_ValueError [where today = "\<lparr>year = 2024, month = 3, day = 1\<rparr>"
      and r = leap_day_record and e = "ValueError ''day is out of range for month''"]
  have 1: "find_phone ''0000000000'' john = Inl (ValueError ''Phone number not found.'')
      \<and> fst (remove_phone ''0000000000'' john) = Inl (ValueError ''Phone number not found.'')
      \<and> fst (edit_phone ''0000000000'' ''0936666666'' john)
          = Inl (ValueError ''Phone number not found.'')"
    using t1 a by simp
  have 2: "\<exists>msg. fst (edit_phone ''0937777777'' ''12345678ab'' john) = Inl (ValueError msg)"
    using t2 b c by simp
  have 3: "(\<exists>msg. Phone_init ''12345678ab'' = Inl (ValueError msg))
      \<and> (\<exists>msg. fst (add_phone ''12345678ab'' john) = Inl (ValueError msg))"
    using t3 c by simp
  have 4: "fst (add_birthday ''1990-12-25'' john)
      = Inl (ValueError ''Invalid date format. Use DD.MM.YYYY'')"
    using t4 d by simp
  have 5: "find_record ''Bob'' [(''John'', john)] = Inl (ValueError ''Record not found.'')
      \<and> fst (delete ''Bob'' [(''John'', john)]) = Inl (ValueError ''Record not found.'')"
    using t5 e by simp
  have 6: "\<exists>msg. ValueError ''day is out of range for month'' = ValueError msg"
    using t6 f by simp
  show ?thesis
    by (intro conjI a b c d e f g 1 [THEN conjunct1] 1 [THEN conjunct2, THEN conjunct1]
        1 [THEN conjunct2, THEN conjunct2] 2 3 [THEN conjunct1] 3 [THEN conjunct2] 4
        5 [THEN conjunct1] 5 [THEN conjunct2] 6)
qed

section \<open>Finding and deleting records\<close>

lemma map_of_filter_other:
  "k \<noteq> n \<Longrightarrow> map_of (filter (\<lambda>kv. fst kv \<noteq> n) d) k = map_of d k"
  by (induction d) auto

lemma dict_contains_filter:
  "dict_contains k (filter (\<lambda>kv. fst kv \<noteq> n) d) \<longleftrightarrow> dict_contains k d \<and> k \<noteq> n"
  by (auto simp: dict_contains_def)

lemma find_map_of: "find_record n book = Inr r \<longleftrightarrow> map_of book n = Some r"
proof (cases "map_of book n")
  case None
  then show ?thesis
    by (simp add: find_record_def dict_getitem_def)
next
  case (Some v)
  then have "n \<in> fst ` set book"
    by (metis map_of_eq_None_iff option.distinct(1))
  with Some show ?thesis
    by (simp add: find_record_def dict_getitem_def dict_contains_def)
qed

lemma find_present:
  "distinct (map fst book) \<Longrightarrow> find_record n book = Inr r \<longleftrightarrow> (n, r) \<in> set book"
  by (simp add: find_map_of)

lemma find_absent:
  "find_record n book = Inl (ValueError ''Record not found.'') \<longleftrightarrow> n \<notin> set (map fst book)"
  by (auto simp: find_record_def dict_getitem_def dict_contains_def map_of_eq_None_iff
      split: option.splits)

text \<open>
  Claim C7: \<^verbatim>\<open>delete(name)\<close> raises the not-found error exactly when the name is not
  a key of the book, and then the book stays as it is; otherwise it removes the entry of
  that name and leaves the other entries, in their order. After a delete that returned,
  \<^verbatim>\<open>find(name)\<close> raises the not-found error. \<^verbatim>\<open>find(name)\<close> returns the record
  stored under the name exactly when the name is a key. The keys of a dictionary are
  distinct.
\<close>

theorem delete_find_spec:
  assumes "distinct (map fst book)"
  shows "(isl (fst (delete n book)) \<longleftrightarrow> n \<notin> set (map fst book))
   \<and> (n \<notin> set (map fst book) \<longrightarrow>
        delete n book = (Inl (ValueError ''Record not found.''), book))
   \<and> (n \<in> set (map fst book) \<longrightarrow>
        delete n book = (Inr (), filter (\<lambda>kv. fst kv \<noteq> n) book)
        \<and> (\<forall>k. k \<noteq> n \<longrightarrow> find_record k (snd (delete n book)) = find_record k book)
        \<and> find_record n (snd (delete n book)) = Inl (ValueError ''Record not found.''))
   \<and> (find_record n book = Inr r \<longleftrightarrow> (n, r) \<in> set book)
   \<and> (find_record n book = Inl (ValueError ''Record not found.'') \<longleftrightarrow> n \<notin> set (map fst book))"
proof -
  have absent: "delete n book = (Inl (ValueError ''Record not found.''), book)"
    if "n \<notin> set (map fst book)"
    using that by (simp add: delete_def dict_contains_def)
  have present: "delete n book = (Inr (), filter (\<lambda>kv. fst kv \<noteq> n) book)"
    if "n \<in> set (map fst book)"
    using that by (simp add: delete_def dict_delitem_def dict_contains_def)
  have others: "find_record k (filter (\<lambda>kv. fst kv \<noteq> n) book) = find_record k book" if "k \<noteq> n" for k
    using that
    by (simp add: find_record_def dict_getitem_def dict_contains_filter map_of_filter_other)
  have gone: "find_record n (filter (\<lambda>kv. fst kv \<noteq> n) book) = Inl (ValueError ''Record not found.'')"
    by (simp add: find_record_def dict_contains_filter)
  have fails: "isl (fst (delete n book)) \<longleftrightarrow> n \<notin> set (map fst book)"
    using absent present by (cases "n \<in> set (map fst book)") simp_all
  show ?thesis
    using absent present others gone fails find_present [OF assms] find_absent
    by simp
qed

theorem delete_find_spec_witness:
  "distinct (map fst [(''John'', john), (''Jane'', jane)])
   \<and> delete ''Jane'' [(''John'', john), (''Jane'', jane)] = (Inr (), [(''John'', john)])
   \<and> find_record ''Jane'' [(''John'', john)] = Inl (ValueError ''Record not found.'')
   \<and> find_record ''John'' [(''John'', john)] = Inr john
   \<and> delete ''Bob'' [(''John'', john), (''Jane'', jane)]
       = (Inl (ValueError ''Record not found.''), [(''John'', john), (''Jane'', jane)])"
proof -
  have d: "distinct (map fst [(''John'', john), (''Jane'', jane)])"
    by simp
  have d1: "distinct (map fst [(''John'', john)])"
    by simp
  show ?thesis
    using d delete_find_spec [OF d, of "''Jane''"] delete_find_spec [OF d, of "''Bob''"]
      delete_find_spec [OF d1, of "''John''" john] delete_find_spec [OF d1, of "''Jane''"]
    by simp
qed

section \<open>Days to the next birthday\<close>

text \<open>
  Claim C3, at a failing input: the record gets the birthday 29.02.2000 through
  \<^verbatim>\<open>add_birthday\<close> and today is 1 March 2024. The stored month and day with today's
  year give the valid date 29 February 2024; it lies before today, so the method asks for
  29 February 2025 and \<^verbatim>\<open>replace\<close> raises instead of returning a number of days.
\<close>

theorem days_to_birthday_leap_day_raises:
  "valid_date \<lparr>year = 2024, month = 3, day = 1\<rparr>
   \<and> add_birthday ''29.02.2000'' (Record_init ''Ann'') = (Inr (), leap_day_record)
   \<and> replace_year \<lparr>year = 2000, month = 2, day = 29\<rparr> 2024
       = Inr \<lparr>year = 2024, month = 2, day = 29\<rparr>
   \<and> days_to_birthday \<lparr>year = 2024, month = 3, day = 1\<rparr> leap_day_record
       = Inl (ValueError ''day is out of range for month'')"
  by code_simp

text \<open>
  Claim C4, at a failing input: a book with a record born on 29 February, on 1 June 2023.
  The uncaught \<^verbatim>\<open>ValueError\<close> of \<^verbatim>\<open>days_to_birthday\<close> ends
  \<^verbatim>\<open>get_upcoming_birthdays\<close>: no sequence is returned, for a negative window as well.
\<close>

theorem get_upcoming_birthdays_leap_day_raises:
  "valid_date \<lparr>year = 2023, month = 6, day = 1\<rparr>
   \<and> add_record leap_day_record (add_record john []) = [(''John'', john), (''Ann'', leap_day_record)]
   \<and> get_upcoming_birthdays \<lparr>year = 2023, month = 6, day = 1\<rparr> 7
        [(''John'', john), (''Ann'', leap_day_record)]
       = Inl (ValueError ''day is out of range for month'')
   \<and> get_upcoming_birthdays \<lparr>year = 2023, month = 6, day = 1\<rparr> (- 1)
        [(''John'', john), (''Ann'', leap_day_record)]
       = Inl (ValueError ''day is out of range for month'')"
  by code_simp

section \<open>The matcher\<close>

lemma alt_matches_simps:
  "alt_matches [] m \<longleftrightarrow> m = []"
  "alt_matches (p # ps) m \<longleftrightarrow> (\<exists>c cs. m = c # cs \<and> p c \<and> alt_matches ps cs)"
  by (auto simp: alt_matches_def list_all2_Cons1)

lemma match_seq_iff:
  "match_seq a s = Some (m, r) \<longleftrightarrow> s = m @ r \<and> alt_matches a m"
proof (induction a s arbitrary: m rule: match_seq.induct)
  case (1 s)
  then show ?case by (auto simp: alt_matches_simps)
next
  case (2 p ps)
  then show ?case by (simp add: alt_matches_simps)
next
  case (3 p ps c cs)
  show ?case
  proof (cases "p c")
    case False
    then show ?thesis
      by (auto simp: alt_matches_simps)
  next
    case True
    show ?thesis
    proof (cases m)
      case Nil
      with True show ?thesis
        by (simp add: alt_matches_simps split: option.splits)
    next
      case (Cons c' m')
      have "match_seq (p # ps) (c # cs) = Some (c' # m', r)
          \<longleftrightarrow> c' = c \<and> match_seq ps cs = Some (m', r)"
        using True by (auto split: option.splits)
      also have "\<dots> \<longleftrightarrow> c' = c \<and> cs = m' @ r \<and> alt_matches ps m'"
        using 3 [OF True, of m'] by simp
      also have "\<dots> \<longleftrightarrow> c # cs = (c' # m') @ r \<and> alt_matches (p # ps) (c' # m')"
        using True by (auto simp: alt_matches_simps)
      finally show ?thesis
        using Cons by simp
    qed
  qed
qed

lemma match_alts_set:
  "(m, r) \<in> set (match_alts alts s) \<longleftrightarrow> s = m @ r \<and> group_matches alts m"
proof (induction alts)
  case Nil
  then show ?case by (simp add: group_matches_def)
next
  case (Cons a alts)
  show ?case
  proof (cases "match_seq a s")
    case None
    then have "\<not> (s = m @ r \<and> alt_matches a m)"
      using match_seq_iff [of a s m r] by simp
    with None Cons show ?thesis
      by (auto simp: group_matches_def)
  next
    case (Some mr)
    then have "(m, r) = mr \<longleftrightarrow> s = m @ r \<and> alt_matches a m"
      using match_seq_iff [of a s m r] by (cases mr) auto
    with Some Cons show ?thesis
      by (auto simp: group_matches_def)
  qed
qed

lemma match_groups_Cons_set:
  "(ms, r) \<in> set (match_groups (alts # gs) s) \<longleftrightarrow>
   (\<exists>m r' ms'. ms = m # ms' \<and> (m, r') \<in> set (match_alts alts s)
      \<and> (ms', r) \<in> set (match_groups gs r'))"
proof
  assume "(ms, r) \<in> set (match_groups (alts # gs) s)"
  then obtain mr msr where "mr \<in> set (match_alts alts s)"
    "msr \<in> set (match_groups gs (snd mr))" "(ms, r) = (fst mr # fst msr, snd msr)"
    by auto
  then have "ms = fst mr # fst msr \<and> (fst mr, snd mr) \<in> set (match_alts alts s)
      \<and> (fst msr, r) \<in> set (match_groups gs (snd mr))"
    by simp
  then show "\<exists>m r' ms'. ms = m # ms' \<and> (m, r') \<in> set (match_alts alts s)
      \<and> (ms', r) \<in> set (match_groups gs r')"
    by blast
next
  assume "\<exists>m r' ms'. ms = m # ms' \<and> (m, r') \<in> set (match_alts alts s)
      \<and> (ms', r) \<in> set (match_groups gs r')"
  then obtain m r' ms' where h: "ms = m # ms'" "(m, r') \<in> set (match_alts alts s)"
      "(ms', r) \<in> set (match_groups gs r')"
    by blast
  have "(ms, r) \<in> (\<lambda>msr. (fst (m, r') # fst msr, snd msr)) ` set (match_groups gs (snd (m, r')))"
    using h(1,3) by (simp add: image_iff) (rule bexI [of _ "(ms', r)"], simp_all)
  with h(2) show "(ms, r) \<in> set (match_groups (alts # gs) s)"
    by (simp del: fst_conv snd_conv) blast
qed

text \<open>The matches of a pattern are the ways to cut the text into one piece per group.\<close>

lemma match_groups_set:
  "(ms, r) \<in> set (match_groups pat s) \<longleftrightarrow> s = concat ms @ r \<and> list_all2 group_matches pat ms"
proof (induction pat arbitrary: s ms)
  case Nil
  then show ?case by auto
next
  case (Cons alts gs)
  have "(ms, r) \<in> set (match_groups (alts # gs) s) \<longleftrightarrow>
      (\<exists>m r' ms'. ms = m # ms' \<and> (s = m @ r' \<and> group_matches alts m)
         \<and> (r' = concat ms' @ r \<and> list_all2 group_matches gs ms'))"
    unfolding match_groups_Cons_set by (simp only: match_alts_set Cons.IH)
  also have "\<dots> \<longleftrightarrow> s = concat ms @ r \<and> list_all2 group_matches (alts # gs) ms"
    by (cases ms) auto
  finally show ?case .
qed

lemma re_match_unique:
  assumes "\<And>x y. x \<in> set (match_groups pat s) \<Longrightarrow> y \<in> set (match_groups pat s) \<Longrightarrow> x = y"
  shows "re_match pat s = Some x \<longleftrightarrow> x \<in> set (match_groups pat s)"
proof (cases "match_groups pat s")
  case Nil
  then show ?thesis by (simp add: re_match_def)
next
  case (Cons y ys)
  then have "y \<in> set (match_groups pat s)" by simp
  with assms have "x \<in> set (match_groups pat s) \<longleftrightarrow> x = y" by blast
  with Cons show ?thesis by (auto simp: re_match_def)
qed

lemma re_match_None: "re_match pat s = None \<longleftrightarrow> set (match_groups pat s) = {}"
  by (cases "match_groups pat s") (simp_all add: re_match_def)

section \<open>Characters of the date pattern\<close>

lemma ord_inj: "ord c = ord d \<longleftrightarrow> c = d"
  by (simp add: ord_def)

lemma lit_ord: "lit a c \<longleftrightarrow> ord c = ord a"
  by (auto simp: lit_def ord_inj)

lemma ord_lits:
  "ord CHR ''0'' = 48" "ord CHR ''1'' = 49" "ord CHR ''2'' = 50" "ord CHR ''3'' = 51"
  "ord CHR ''9'' = 57" "ord CHR '' '' = 32" "ord CHR ''.'' = 46"
  by (simp_all add: ord_def)

lemma space_ord: "c = CHR '' '' \<longleftrightarrow> ord c = 32"
  using ord_inj [of c "CHR '' ''"] by (simp add: ord_lits)

lemma dot_ord: "c = CHR ''.'' \<longleftrightarrow> ord c = 46"
  using ord_inj [of c "CHR ''.''"] by (simp add: ord_lits)

lemmas class_simps = alt_matches_simps lit_ord chr_range_def ascii_digit_def ord_lits

lemma alt1: "alt_matches [p] x \<longleftrightarrow> (\<exists>c. x = [c] \<and> p c)"
  by (auto simp: alt_matches_simps)

lemma group_matches_re_dot: "group_matches re_dot x \<longleftrightarrow> x = ''.''"
  by (auto simp: group_matches_def re_dot_def alt1 lit_def)

lemma group_matches_re_Y: "group_matches re_Y ys \<longleftrightarrow> year_text ys"
proof -
  have "year_text ys \<longleftrightarrow> (\<exists>a b c d. ys = [a, b, c, d] \<and> ascii_digit a \<and> ascii_digit b
      \<and> ascii_digit c \<and> ascii_digit d)"
    by (auto simp: year_text_def length_Suc_conv eval_nat_numeral)
  then show ?thesis
    by (auto simp: group_matches_def re_Y_def alt_matches_simps)
qed

lemma py_int_1: "ord a \<noteq> 32 \<Longrightarrow> py_int [a] = digit_val a"
  by (simp add: py_int_def space_ord)

lemma py_int_2: "ord a \<noteq> 32 \<Longrightarrow> py_int [a, b] = 10 * digit_val a + digit_val b"
  by (simp add: py_int_def space_ord)

lemma py_int_space: "ord b \<noteq> 32 \<Longrightarrow> py_int [CHR '' '', b] = digit_val b"
  by (simp add: py_int_def space_ord ord_lits)

lemma re_m_0: "\<not> group_matches re_m []"
  by (simp add: group_matches_def re_m_def class_simps)

lemma re_m_1: "group_matches re_m [a] \<longleftrightarrow> 49 \<le> ord a \<and> ord a \<le> 57"
  by (simp add: group_matches_def re_m_def class_simps)

lemma re_m_2: "group_matches re_m [a, b] \<longleftrightarrow>
    (ord a = 49 \<and> 48 \<le> ord b \<and> ord b \<le> 50) \<or> (ord a = 48 \<and> 49 \<le> ord b \<and> ord b \<le> 57)"
  by (simp add: group_matches_def re_m_def class_simps)

lemma re_m_3: "\<not> group_matches re_m (a # b # c # cs)"
  by (simp add: group_matches_def re_m_def class_simps)

lemma re_d_0: "\<not> group_matches re_d []"
  by (simp add: group_matches_def re_d_def class_simps)

lemma re_d_1: "group_matches re_d [a] \<longleftrightarrow> 49 \<le> ord a \<and> ord a \<le> 57"
  by (simp add: group_matches_def re_d_def class_simps)

lemma re_d_2: "group_matches re_d [a, b] \<longleftrightarrow>
    (ord a = 51 \<and> 48 \<le> ord b \<and> ord b \<le> 49)
    \<or> (49 \<le> ord a \<and> ord a \<le> 50 \<and> 48 \<le> ord b \<and> ord b \<le> 57)
    \<or> (ord a = 48 \<and> 49 \<le> ord b \<and> ord b \<le> 57)
    \<or> (ord a = 32 \<and> 49 \<le> ord b \<and> ord b \<le> 57)"
  by (simp add: group_matches_def re_d_def class_simps)

lemma re_d_3: "\<not> group_matches re_d (a # b # c # cs)"
  by (simp add: group_matches_def re_d_def class_simps)

lemma list_shape:
  obtains "xs = []" | a where "xs = [a]" | a b where "xs = [a, b]"
  | a b c cs where "xs = a # b # c # cs"
  by (metis list.exhaust)

lemma group_matches_re_m:
  "group_matches re_m ms \<longleftrightarrow> month_text ms \<and> 1 \<le> py_int ms \<and> py_int ms \<le> 12"
proof (cases ms rule: list_shape)
  case 1
  then show ?thesis by (simp add: re_m_0 month_text_def)
next
  case (2 a)
  have "ascii_digit a \<Longrightarrow> py_int [a] = digit_val a"
    by (rule py_int_1) (simp add: ascii_digit_def)
  then have "month_text [a] \<and> 1 \<le> py_int [a] \<and> py_int [a] \<le> 12
      \<longleftrightarrow> ascii_digit a \<and> 1 \<le> digit_val a \<and> digit_val a \<le> 12"
    by (auto simp: month_text_def)
  also have "\<dots> \<longleftrightarrow> 49 \<le> ord a \<and> ord a \<le> 57"
    by (simp add: ascii_digit_def digit_val_def) arith
  finally show ?thesis
    using 2 by (simp add: re_m_1)
next
  case (3 a b)
  have "ascii_digit a \<Longrightarrow> py_int [a, b] = 10 * digit_val a + digit_val b"
    by (rule py_int_2) (simp add: ascii_digit_def)
  then have "month_text [a, b] \<and> 1 \<le> py_int [a, b] \<and> py_int [a, b] \<le> 12
      \<longleftrightarrow> ascii_digit a \<and> ascii_digit b \<and> 1 \<le> 10 * digit_val a + digit_val b
          \<and> 10 * digit_val a + digit_val b \<le> 12"
    by (auto simp: month_text_def)
  also have "\<dots> \<longleftrightarrow> (ord a = 49 \<and> 48 \<le> ord b \<and> ord b \<le> 50)
      \<or> (ord a = 48 \<and> 49 \<le> ord b \<and> ord b \<le> 57)"
    by (simp add: ascii_digit_def digit_val_def) arith
  finally show ?thesis
    using 3 by (simp add: re_m_2)
next
  case (4 a b c cs)
  then show ?thesis by (simp add: re_m_3 month_text_def)
qed

lemma group_matches_re_d:
  "group_matches re_d ds \<longleftrightarrow> day_text ds \<and> 1 \<le> py_int ds \<and> py_int ds \<le> 31"
proof (cases ds rule: list_shape)
  case 1
  then show ?thesis by (simp add: re_d_0 day_text_def)
next
  case (2 a)
  have "ascii_digit a \<Longrightarrow> py_int [a] = digit_val a"
    by (rule py_int_1) (simp add: ascii_digit_def)
  then have "day_text [a] \<and> 1 \<le> py_int [a] \<and> py_int [a] \<le> 31
      \<longleftrightarrow> ascii_digit a \<and> 1 \<le> digit_val a \<and> digit_val a \<le> 31"
    by (auto simp: day_text_def)
  also have "\<dots> \<longleftrightarrow> 49 \<le> ord a \<and> ord a \<le> 57"
    by (simp add: ascii_digit_def digit_val_def) arith
  finally show ?thesis
    using 2 by (simp add: re_d_1)
next
  case (3 a b)
  have d: "ascii_digit a \<Longrightarrow> py_int [a, b] = 10 * digit_val a + digit_val b"
    by (rule py_int_2) (simp add: ascii_digit_def)
  have s: "py_int [a, b] = digit_val b" if "ord a = 32" "ascii_digit b"
  proof -
    from that(1) have "a = CHR '' ''" by (simp add: space_ord)
    moreover from that(2) have "ord b \<noteq> 32" by (simp add: ascii_digit_def)
    ultimately show ?thesis by (simp add: py_int_space)
  qed
  have "day_text [a, b] \<and> 1 \<le> py_int [a, b] \<and> py_int [a, b] \<le> 31
      \<longleftrightarrow> (ascii_digit a \<and> ascii_digit b \<and> 1 \<le> 10 * digit_val a + digit_val b
             \<and> 10 * digit_val a + digit_val b \<le> 31)
          \<or> (ord a = 32 \<and> ascii_digit b \<and> 1 \<le> digit_val b \<and> digit_val b \<le> 31)"
    using d s by (auto simp: day_text_def space_ord)
  also have "\<dots> \<longleftrightarrow> (ord a = 51 \<and> 48 \<le> ord b \<and> ord b \<le> 49)
    \<or> (49 \<le> ord a \<and> ord a \<le> 50 \<and> 48 \<le> ord b \<and> ord b \<le> 57)
    \<or> (ord a = 48 \<and> 49 \<le> ord b \<and> ord b \<le> 57)
    \<or> (ord a = 32 \<and> 49 \<le> ord b \<and> ord b \<le> 57)"
    by (simp add: ascii_digit_def digit_val_def) arith
  finally show ?thesis
    using 3 by (simp add: re_d_2)
next
  case (4 a b c cs)
  then show ?thesis by (simp add: re_d_3 day_text_def)
qed

lemma format_matches:
  "(found, r) \<in> set (match_groups format_regex s) \<longleftrightarrow>
   (\<exists>ds ms ys. found = [ds, ''.'', ms, ''.'', ys] \<and> s = ds @ ''.'' @ ms @ ''.'' @ ys @ r
      \<and> group_matches re_d ds \<and> group_matches re_m ms \<and> year_text ys)"
  unfolding match_groups_set format_regex_def
  by (auto simp: list_all2_Cons1 group_matches_re_dot group_matches_re_Y)

lemma re_d_no_dot: "group_matches re_d ds \<Longrightarrow> CHR ''.'' \<notin> set ds"
  by (cases ds rule: list_shape) (auto simp: re_d_0 re_d_1 re_d_2 re_d_3 ord_lits)

lemma re_m_no_dot: "group_matches re_m ms \<Longrightarrow> CHR ''.'' \<notin> set ms"
  by (cases ms rule: list_shape) (auto simp: re_m_0 re_m_1 re_m_2 re_m_3 ord_lits)

lemma first_separator:
  "x \<notin> set xs \<Longrightarrow> x \<notin> set xs' \<Longrightarrow> xs @ x # ys = xs' @ x # ys' \<Longrightarrow> xs = xs' \<and> ys = ys'"
proof (induction xs arbitrary: xs')
  case Nil
  then show ?case by (cases xs') auto
next
  case (Cons a xs)
  then show ?case by (cases xs') auto
qed

lemma cut_unique:
  assumes "ds @ ''.'' @ ms @ ''.'' @ ys @ r = ds' @ ''.'' @ ms' @ ''.'' @ ys' @ r'"
    and "group_matches re_d ds" "group_matches re_d ds'"
    and "group_matches re_m ms" "group_matches re_m ms'"
    and "year_text ys" "year_text ys'"
  shows "ds = ds' \<and> ms = ms' \<and> ys = ys' \<and> r = r'"
proof -
  have 1: "ds @ CHR ''.'' # (ms @ ''.'' @ ys @ r) = ds' @ CHR ''.'' # (ms' @ ''.'' @ ys' @ r')"
    using assms(1) by simp
  have d: "ds = ds' \<and> ms @ ''.'' @ ys @ r = ms' @ ''.'' @ ys' @ r'"
    by (rule first_separator [OF re_d_no_dot [OF assms(2)] re_d_no_dot [OF assms(3)] 1])
  then have 2: "ms @ CHR ''.'' # (ys @ r) = ms' @ CHR ''.'' # (ys' @ r')"
    by simp
  have m: "ms = ms' \<and> ys @ r = ys' @ r'"
    by (rule first_separator [OF re_m_no_dot [OF assms(4)] re_m_no_dot [OF assms(5)] 2])
  moreover have "length ys = length ys'"
    using assms(6,7) by (simp add: year_text_def)
  ultimately show ?thesis
    using d by simp
qed

lemma format_match_unique:
  assumes "x \<in> set (match_groups format_regex s)" "y \<in> set (match_groups format_regex s)"
  shows "x = y"
proof -
  obtain f r where x: "x = (f, r)" by (cases x)
  obtain f' r' where y: "y = (f', r')" by (cases y)
  from assms x obtain ds ms ys where
    a: "f = [ds, ''.'', ms, ''.'', ys]" "s = ds @ ''.'' @ ms @ ''.'' @ ys @ r"
       "group_matches re_d ds" "group_matches re_m ms" "year_text ys"
    by (auto simp: format_matches)
  from assms y obtain ds' ms' ys' where
    b: "f' = [ds', ''.'', ms', ''.'', ys']" "s = ds' @ ''.'' @ ms' @ ''.'' @ ys' @ r'"
       "group_matches re_d ds'" "group_matches re_m ms'" "year_text ys'"
    by (auto simp: format_matches)
  from a(2) b(2) have "ds @ ''.'' @ ms @ ''.'' @ ys @ r = ds' @ ''.'' @ ms' @ ''.'' @ ys' @ r'"
    by simp
  from cut_unique [OF this a(3) b(3) a(4) b(4) a(5) b(5)] show ?thesis
    using a(1) b(1) x y by simp
qed

lemma re_match_format:
  "re_match format_regex s = Some (found, r) \<longleftrightarrow>
   (\<exists>ds ms ys. found = [ds, ''.'', ms, ''.'', ys] \<and> s = ds @ ''.'' @ ms @ ''.'' @ ys @ r
      \<and> group_matches re_d ds \<and> group_matches re_m ms \<and> year_text ys)"
  using re_match_unique [of format_regex s "(found, r)"] format_match_unique [of _ s]
  by (simp only: format_matches)


lemma days_in_month_le: "1 \<le> m \<Longrightarrow> m \<le> 12 \<Longrightarrow> days_in_month y m \<le> 31"
proof -
  assume "1 \<le> m" "m \<le> 12"
  then have "m \<in> {1, 2, 3, 4, 5, 6, 7, 8, 9, 10, 11, 12}" by simp arith
  then show ?thesis
    by (auto simp: days_in_month_def DAYS_IN_MONTH_def)
qed

lemma date_new_iff:
  "date_new y m d = Inr dt \<longleftrightarrow> dt = \<lparr>year = y, month = m, day = d\<rparr> \<and> valid_date dt"
  by (auto simp: date_new_def valid_date_def)

lemma date_new_valid:
  "valid_date \<lparr>year = y, month = m, day = d\<rparr> \<Longrightarrow> date_new y m d = Inr \<lparr>year = y, month = m, day = d\<rparr>"
  by (simp add: date_new_iff)

lemma valid_date_bounds:
  "valid_date dt \<Longrightarrow> 1 \<le> month dt \<and> month dt \<le> 12 \<and> 1 \<le> day dt \<and> day dt \<le> 31"
  using days_in_month_le [of "month dt" "year dt"] by (auto simp: valid_date_def)

lemma strptime_iff:
  "strptime s = Inr t \<longleftrightarrow>
   (\<exists>ds ms ys. s = ds @ ''.'' @ ms @ ''.'' @ ys
      \<and> group_matches re_d ds \<and> group_matches re_m ms \<and> year_text ys
      \<and> date_new (py_int ys) (py_int ms) (py_int ds) = Inr (datetime_date t)
      \<and> hour t = 0 \<and> minute t = 0 \<and> second t = 0 \<and> microsecond t = 0)"
proof (cases "re_match format_regex s")
  case None
  have "\<not> (\<exists>ds ms ys. s = ds @ ''.'' @ ms @ ''.'' @ ys
      \<and> group_matches re_d ds \<and> group_matches re_m ms \<and> year_text ys)"
  proof
    assume "\<exists>ds ms ys. s = ds @ ''.'' @ ms @ ''.'' @ ys
      \<and> group_matches re_d ds \<and> group_matches re_m ms \<and> year_text ys"
    then obtain ds ms ys where "s = ds @ ''.'' @ ms @ ''.'' @ ys @ []"
      "group_matches re_d ds" "group_matches re_m ms" "year_text ys"
      by auto
    then have "re_match format_regex s = Some ([ds, ''.'', ms, ''.'', ys], [])"
      unfolding re_match_format by blast
    with None show False by simp
  qed
  with None show ?thesis
    by (auto simp: strptime_def)
next
  case (Some fr)
  obtain found r where fr: "fr = (found, r)" by (cases fr)
  from Some fr obtain ds ms ys where
    h: "found = [ds, ''.'', ms, ''.'', ys]" "s = ds @ ''.'' @ ms @ ''.'' @ ys @ r"
       "group_matches re_d ds" "group_matches re_m ms" "year_text ys"
    by (auto simp: re_match_format)
  show ?thesis
  proof (cases "r = []")
    case False
    have "\<not> (\<exists>ds' ms' ys'. s = ds' @ ''.'' @ ms' @ ''.'' @ ys'
      \<and> group_matches re_d ds' \<and> group_matches re_m ms' \<and> year_text ys')"
    proof
      assume "\<exists>ds' ms' ys'. s = ds' @ ''.'' @ ms' @ ''.'' @ ys'
        \<and> group_matches re_d ds' \<and> group_matches re_m ms' \<and> year_text ys'"
      then obtain ds' ms' ys' where g: "s = ds' @ ''.'' @ ms' @ ''.'' @ ys' @ []"
        "group_matches re_d ds'" "group_matches re_m ms'" "year_text ys'"
        by auto
      from h(2) g(1) have "ds @ ''.'' @ ms @ ''.'' @ ys @ r = ds' @ ''.'' @ ms' @ ''.'' @ ys' @ []"
        by simp
      from cut_unique [OF this h(3) g(2) h(4) g(3) h(5) g(4)] False show False
        by simp
    qed
    with Some fr False show ?thesis
      by (auto simp: strptime_def)
  next
    case True
    have u: "s = ds' @ ''.'' @ ms' @ ''.'' @ ys' \<and> group_matches re_d ds'
        \<and> group_matches re_m ms' \<and> year_text ys' \<longleftrightarrow> ds' = ds \<and> ms' = ms \<and> ys' = ys"
      for ds' ms' ys'
    proof
      assume a: "s = ds' @ ''.'' @ ms' @ ''.'' @ ys' \<and> group_matches re_d ds'
        \<and> group_matches re_m ms' \<and> year_text ys'"
      with h(2) have "ds @ ''.'' @ ms @ ''.'' @ ys @ r = ds' @ ''.'' @ ms' @ ''.'' @ ys' @ []"
        by simp
      from cut_unique [OF this h(3) _ h(4) _ h(5)] a show "ds' = ds \<and> ms' = ms \<and> ys' = ys"
        by simp
    next
      assume "ds' = ds \<and> ms' = ms \<and> ys' = ys"
      with h True show "s = ds' @ ''.'' @ ms' @ ''.'' @ ys' \<and> group_matches re_d ds'
        \<and> group_matches re_m ms' \<and> year_text ys'"
        by simp
    qed
    have "strptime s = Inr t \<longleftrightarrow>
        date_new (py_int ys) (py_int ms) (py_int ds) = Inr (datetime_date t)
        \<and> hour t = 0 \<and> minute t = 0 \<and> second t = 0 \<and> microsecond t = 0"
      using Some fr True h(1)
      by (cases t)
         (auto simp: strptime_def datetime_date_def date_new_iff date_new_valid split: sum.splits)
    also have "\<dots> \<longleftrightarrow> (\<exists>ds' ms' ys'. (s = ds' @ ''.'' @ ms' @ ''.'' @ ys'
        \<and> group_matches re_d ds' \<and> group_matches re_m ms' \<and> year_text ys')
        \<and> date_new (py_int ys') (py_int ms') (py_int ds') = Inr (datetime_date t)
        \<and> hour t = 0 \<and> minute t = 0 \<and> second t = 0 \<and> microsecond t = 0)"
      unfolding u by simp
    finally show ?thesis
      by (simp add: conj_assoc)
  qed
qed

section \<open>Birthday validation\<close>

lemma validate_birthday_strptime:
  "validate_birthday s = Inr dt \<longleftrightarrow> (\<exists>t. strptime s = Inr t \<and> datetime_date t = dt)"
  by (auto simp: validate_birthday_def split: sum.splits py_error.splits)

lemma validate_birthday_groups:
  "validate_birthday s = Inr dt \<longleftrightarrow>
   (\<exists>ds ms ys. s = ds @ ''.'' @ ms @ ''.'' @ ys
      \<and> group_matches re_d ds \<and> group_matches re_m ms \<and> year_text ys
      \<and> date_new (py_int ys) (py_int ms) (py_int ds) = Inr dt)"
proof
  assume "validate_birthday s = Inr dt"
  then show "\<exists>ds ms ys. s = ds @ ''.'' @ ms @ ''.'' @ ys
      \<and> group_matches re_d ds \<and> group_matches re_m ms \<and> year_text ys
      \<and> date_new (py_int ys) (py_int ms) (py_int ds) = Inr dt"
    unfolding validate_birthday_strptime strptime_iff by blast
next
  assume "\<exists>ds ms ys. s = ds @ ''.'' @ ms @ ''.'' @ ys
      \<and> group_matches re_d ds \<and> group_matches re_m ms \<and> year_text ys
      \<and> date_new (py_int ys) (py_int ms) (py_int ds) = Inr dt"
  then obtain ds ms ys where h: "s = ds @ ''.'' @ ms @ ''.'' @ ys"
      "group_matches re_d ds" "group_matches re_m ms" "year_text ys"
      "date_new (py_int ys) (py_int ms) (py_int ds) = Inr dt"
    by blast
  define t where "t = \<lparr>dt_year = year dt, dt_month = month dt, dt_day = day dt,
      hour = 0, minute = 0, second = 0, microsecond = 0\<rparr>"
  have "datetime_date t = dt"
    by (simp add: t_def datetime_date_def)
  moreover have "strptime s = Inr t"
    unfolding strptime_iff using h \<open>datetime_date t = dt\<close> by (auto simp: t_def)
  ultimately show "validate_birthday s = Inr dt"
    unfolding validate_birthday_strptime by blast
qed

lemma validate_birthday_iff: "validate_birthday s = Inr dt \<longleftrightarrow> lenient_dmy s dt"
proof -
  have "group_matches re_d ds \<and> group_matches re_m ms
        \<and> date_new (py_int ys) (py_int ms) (py_int ds) = Inr dt
      \<longleftrightarrow> day_text ds \<and> month_text ms
        \<and> dt = \<lparr>year = py_int ys, month = py_int ms, day = py_int ds\<rparr> \<and> valid_date dt"
    for ds ms ys
    using valid_date_bounds [of "\<lparr>year = py_int ys, month = py_int ms, day = py_int ds\<rparr>"]
    by (auto simp: date_new_iff group_matches_re_d group_matches_re_m)
  then have "(\<exists>ds ms ys. s = ds @ ''.'' @ ms @ ''.'' @ ys
      \<and> group_matches re_d ds \<and> group_matches re_m ms \<and> year_text ys
      \<and> date_new (py_int ys) (py_int ms) (py_int ds) = Inr dt) \<longleftrightarrow> lenient_dmy s dt"
    unfolding lenient_dmy_def by blast
  then show ?thesis
    by (simp only: validate_birthday_groups)
qed




section \<open>Formatting a parsed birthday\<close>

lemma digit_char_val: "ascii_digit c \<Longrightarrow> digit_char (nat (digit_val c)) = c"
proof -
  assume "ascii_digit c"
  then have "48 + nat (digit_val c) = of_char c"
    by (auto simp: ascii_digit_def digit_val_def ord_def)
  then show ?thesis
    by (simp add: digit_char_def)
qed

lemma digit_val_range: "ascii_digit c \<Longrightarrow> 0 \<le> digit_val c \<and> digit_val c \<le> 9"
  by (simp add: ascii_digit_def digit_val_def)

lemma str_nat_digit: "n < 10 \<Longrightarrow> str_nat n = [digit_char n]"
  by (subst str_nat.simps) simp

lemma str_nat_step: "0 < n \<Longrightarrow> d < 10 \<Longrightarrow> str_nat (10 * n + d) = str_nat n @ [digit_char d]"
  by (subst str_nat.simps) simp

lemma str_int_digit:
  assumes "ascii_digit c"
  shows "str_int (digit_val c) = [c]"
proof -
  from digit_val_range [OF assms] have "nat (digit_val c) < 10" "\<not> digit_val c < 0"
    by auto
  then show ?thesis
    using digit_char_val [OF assms] by (simp add: str_int_def str_nat_digit)
qed

lemma str_int_step:
  assumes "0 < v" "ascii_digit c"
  shows "str_int (10 * v + digit_val c) = str_int v @ [c]"
proof -
  from assms(2) have r: "0 \<le> digit_val c" "digit_val c \<le> 9"
    using digit_val_range by auto
  have "nat (10 * v + digit_val c) = 10 * nat v + nat (digit_val c)"
    using assms(1) r by (simp add: nat_add_distrib nat_mult_distrib)
  moreover have "0 < nat v" "nat (digit_val c) < 10"
    using assms(1) r by auto
  ultimately have "str_nat (nat (10 * v + digit_val c)) = str_nat (nat v) @ [c]"
    using digit_char_val [OF assms(2)] by (simp add: str_nat_step)
  then show ?thesis
    using assms(1) r by (simp add: str_int_def)
qed

lemma pad2_two:
  assumes "ascii_digit a" "ascii_digit b"
  shows "pad2 (10 * digit_val a + digit_val b) = [a, b]"
proof (cases "digit_val a = 0")
  case True
  then have "ord a = 48"
    by (simp add: digit_val_def)
  then have "a = CHR ''0''"
    using ord_inj [of a "CHR ''0''"] by (simp add: ord_lits)
  with True show ?thesis
    using digit_val_range [OF assms(2)] str_int_digit [OF assms(2)] by (simp add: pad2_def)
next
  case False
  with digit_val_range [OF assms(1)] have p: "0 < digit_val a" by simp
  have "str_int (10 * digit_val a + digit_val b) = [a, b]"
    using str_int_step [OF p assms(2)] str_int_digit [OF assms(1)] by simp
  moreover have "\<not> 10 * digit_val a + digit_val b < 10"
    using p digit_val_range [OF assms(2)] by simp
  ultimately show ?thesis
    by (simp add: pad2_def)
qed

lemma str_int_four:
  assumes "ascii_digit a" "ascii_digit b" "ascii_digit c" "ascii_digit d" "0 < digit_val a"
  shows "str_int (10 * (10 * (10 * digit_val a + digit_val b) + digit_val c) + digit_val d)
    = [a, b, c, d]"
proof -
  have 1: "str_int (10 * digit_val a + digit_val b) = [a, b]"
    using str_int_step [OF assms(5) assms(2)] str_int_digit [OF assms(1)] by simp
  have p2: "0 < 10 * digit_val a + digit_val b"
    using assms(5) digit_val_range [OF assms(2)] by simp
  have 2: "str_int (10 * (10 * digit_val a + digit_val b) + digit_val c) = [a, b, c]"
    using str_int_step [OF p2 assms(3)] 1 by simp
  have p3: "0 < 10 * (10 * digit_val a + digit_val b) + digit_val c"
    using p2 digit_val_range [OF assms(3)] by simp
  show ?thesis
    using str_int_step [OF p3 assms(4)] 2 by simp
qed

lemma py_int_4:
  "ascii_digit a \<Longrightarrow> py_int [a, b, c, d]
     = 10 * (10 * (10 * digit_val a + digit_val b) + digit_val c) + digit_val d"
  by (simp add: py_int_def space_ord ascii_digit_def)

lemma strict_dmy_shape:
  "strict_dmy s \<longleftrightarrow> (\<exists>d1 d2 m1 m2 y1 y2 y3 y4.
      s = [d1, d2, CHR ''.'', m1, m2, CHR ''.'', y1, y2, y3, y4]
      \<and> ascii_digit d1 \<and> ascii_digit d2 \<and> ascii_digit m1 \<and> ascii_digit m2
      \<and> ascii_digit y1 \<and> ascii_digit y2 \<and> ascii_digit y3 \<and> ascii_digit y4)"
proof
  assume a: "strict_dmy s"
  then have "length s = 10" by (simp add: strict_dmy_def)
  then obtain d1 d2 p m1 m2 q y1 y2 y3 y4 where
    s: "s = [d1, d2, p, m1, m2, q, y1, y2, y3, y4]"
    by (auto simp: length_Suc_conv eval_nat_numeral)
  with a show "\<exists>d1 d2 m1 m2 y1 y2 y3 y4.
      s = [d1, d2, CHR ''.'', m1, m2, CHR ''.'', y1, y2, y3, y4]
      \<and> ascii_digit d1 \<and> ascii_digit d2 \<and> ascii_digit m1 \<and> ascii_digit m2
      \<and> ascii_digit y1 \<and> ascii_digit y2 \<and> ascii_digit y3 \<and> ascii_digit y4"
    by (simp add: strict_dmy_def eval_nat_numeral)
next
  assume "\<exists>d1 d2 m1 m2 y1 y2 y3 y4.
      s = [d1, d2, CHR ''.'', m1, m2, CHR ''.'', y1, y2, y3, y4]
      \<and> ascii_digit d1 \<and> ascii_digit d2 \<and> ascii_digit m1 \<and> ascii_digit m2
      \<and> ascii_digit y1 \<and> ascii_digit y2 \<and> ascii_digit y3 \<and> ascii_digit y4"
  then show "strict_dmy s"
    by (auto simp: strict_dmy_def eval_nat_numeral)
qed


lemma day_text_no_dot: "day_text ds \<Longrightarrow> CHR ''.'' \<notin> set ds"
  by (cases ds rule: list_shape) (auto simp: day_text_def ascii_digit_def ord_lits)

lemma month_text_no_dot: "month_text ms \<Longrightarrow> CHR ''.'' \<notin> set ms"
  by (cases ms rule: list_shape) (auto simp: month_text_def ascii_digit_def ord_lits)

lemma digit_no_dot: "ascii_digit c \<Longrightarrow> c \<noteq> CHR ''.''"
  by (auto simp: ascii_digit_def ord_lits)

lemma strict_parse:
  assumes "ascii_digit d1" "ascii_digit d2" "ascii_digit m1" "ascii_digit m2"
    "ascii_digit y1" "ascii_digit y2" "ascii_digit y3" "ascii_digit y4"
    and "validate_birthday [d1, d2, CHR ''.'', m1, m2, CHR ''.'', y1, y2, y3, y4] = Inr dt"
  shows "dt = \<lparr>year = py_int [y1, y2, y3, y4], month = py_int [m1, m2], day = py_int [d1, d2]\<rparr>"
proof -
  from assms(9) obtain ds ms ys where
    h: "[d1, d2, CHR ''.'', m1, m2, CHR ''.'', y1, y2, y3, y4] = ds @ ''.'' @ ms @ ''.'' @ ys"
       "day_text ds" "month_text ms"
       "dt = \<lparr>year = py_int ys, month = py_int ms, day = py_int ds\<rparr>"
    by (auto simp: validate_birthday_iff lenient_dmy_def)
  have 1: "ds @ CHR ''.'' # (ms @ ''.'' @ ys) = [d1, d2] @ CHR ''.'' # [m1, m2, CHR ''.'', y1, y2, y3, y4]"
    using h(1) by simp
  have nd: "CHR ''.'' \<notin> set [d1, d2]"
    using digit_no_dot [OF assms(1)] digit_no_dot [OF assms(2)] by auto
  from first_separator [OF day_text_no_dot [OF h(2)] nd 1]
  have d: "ds = [d1, d2]" and 2: "ms @ CHR ''.'' # ys = [m1, m2] @ CHR ''.'' # [y1, y2, y3, y4]"
    by simp_all
  have nm: "CHR ''.'' \<notin> set [m1, m2]"
    using digit_no_dot [OF assms(3)] digit_no_dot [OF assms(4)] by auto
  from first_separator [OF month_text_no_dot [OF h(3)] nm 2]
  have "ms = [m1, m2]" "ys = [y1, y2, y3, y4]"
    by simp_all
  with d h(4) show ?thesis by simp
qed

text \<open>
  Claim C8, amended: for every text in the strict form DD.MM.YYYY that \<^verbatim>\<open>Birthday\<close>
  accepts and whose year is at least 1000, formatting the stored date with
  \<^verbatim>\<open>%d.%m.%Y\<close>, as the rendering of the record does, gives the text back.
\<close>

theorem birthday_round_trip:
  "strict_dmy s \<and> Birthday_init s = Inr (Birthday dt) \<and> 1000 \<le> year dt \<longrightarrow> strftime dt = s"
proof
  assume a: "strict_dmy s \<and> Birthday_init s = Inr (Birthday dt) \<and> 1000 \<le> year dt"
  then obtain d1 d2 m1 m2 y1 y2 y3 y4 where
    s: "s = [d1, d2, CHR ''.'', m1, m2, CHR ''.'', y1, y2, y3, y4]"
    and g: "ascii_digit d1" "ascii_digit d2" "ascii_digit m1" "ascii_digit m2"
      "ascii_digit y1" "ascii_digit y2" "ascii_digit y3" "ascii_digit y4"
    unfolding strict_dmy_shape by blast
  from a have v: "validate_birthday s = Inr dt"
    by (auto simp: Birthday_init_def split: sum.splits)
  have dt: "dt = \<lparr>year = py_int [y1, y2, y3, y4], month = py_int [m1, m2], day = py_int [d1, d2]\<rparr>"
    using strict_parse [OF g v [unfolded s]] .
  have n32: "ord d1 \<noteq> 32" "ord m1 \<noteq> 32"
    using g(1,3) by (simp_all add: ascii_digit_def)
  have dd: "pad2 (day dt) = [d1, d2]"
    using pad2_two [OF g(1) g(2)] by (simp add: dt py_int_2 [OF n32(1)])
  have mm: "pad2 (month dt) = [m1, m2]"
    using pad2_two [OF g(3) g(4)] by (simp add: dt py_int_2 [OF n32(2)])
  have y: "year dt = 10 * (10 * (10 * digit_val y1 + digit_val y2) + digit_val y3) + digit_val y4"
    by (simp add: dt py_int_4 [OF g(5)])
  have "0 < digit_val y1"
  proof (rule ccontr)
    assume "\<not> 0 < digit_val y1"
    with digit_val_range [OF g(5)] have "digit_val y1 = 0" by simp
    with y digit_val_range [OF g(6)] digit_val_range [OF g(7)] digit_val_range [OF g(8)]
    have "year dt < 1000" by simp
    with a show False by simp
  qed
  then have yy: "str_int (year dt) = [y1, y2, y3, y4]"
    using str_int_four [OF g(5) g(6) g(7) g(8)] y by simp
  show "strftime dt = s"
    by (simp add: strftime_def dd mm yy s)
qed

text \<open>
  Claim C8, as stated, for every four-digit year: it fails for a year below 1000, which
  is parsed with its leading zeros and printed without them.
\<close>

theorem birthday_round_trip_counterexample:
  "strict_dmy ''01.01.0999''
   \<and> Birthday_init ''01.01.0999'' = Inr (Birthday \<lparr>year = 999, month = 1, day = 1\<rparr>)
   \<and> strftime \<lparr>year = 999, month = 1, day = 1\<rparr> = ''01.01.999''
   \<and> strftime \<lparr>year = 999, month = 1, day = 1\<rparr> \<noteq> ''01.01.0999''"
  by code_simp

theorem birthday_round_trip_witness:
  "strict_dmy ''25.12.1990''
   \<and> Birthday_init ''25.12.1990'' = Inr (Birthday \<lparr>year = 1990, month = 12, day = 25\<rparr>)
   \<and> strftime \<lparr>year = 1990, month = 12, day = 25\<rparr> = ''25.12.1990''"
proof -
  have a: "strict_dmy ''25.12.1990''"
    by code_simp
  have b: "Birthday_init ''25.12.1990'' = Inr (Birthday \<lparr>year = 1990, month = 12, day = 25\<rparr>)"
    by code_simp
  show ?thesis
    using a b birthday_round_trip [of "''25.12.1990''" "\<lparr>year = 1990, month = 12, day = 25\<rparr>"]
    by simp
qed

section \<open>Ordinals of dates\<close>

lemma div_step:
  fixes y k :: int
  assumes "0 < k"
  shows "y div k - (y - 1) div k = (if y mod k = 0 then 1 else 0)"
proof (cases "y mod k = 0")
  case True
  have e: "y - 1 = k * (y div k - 1) + (k - 1)"
    using True mult_div_mod_eq [of k y] by (simp add: algebra_simps)
  have "(y - 1) div k = y div k - 1"
    by (rule int_div_pos_eq [OF e]) (use assms in simp_all)
  with True show ?thesis by simp
next
  case False
  have p: "0 \<le> y mod k" "y mod k < k"
    using assms by simp_all
  have e: "y - 1 = k * (y div k) + (y mod k - 1)"
    using mult_div_mod_eq [of k y] by (simp add: algebra_simps)
  have "(y - 1) div k = y div k"
    by (rule int_div_pos_eq [OF e]) (use p False in simp_all)
  with False show ?thesis by simp
qed

lemma mod_400_100: "(y::int) mod 400 = 0 \<Longrightarrow> y mod 100 = 0"
proof -
  assume "y mod 400 = 0"
  then have "400 dvd y" by (simp add: mod_eq_0_iff_dvd)
  moreover have "(100::int) dvd 400" by simp
  ultimately have "100 dvd y" by (rule dvd_trans [rotated])
  then show ?thesis by (simp add: mod_eq_0_iff_dvd)
qed

lemma mod_100_4: "(y::int) mod 100 = 0 \<Longrightarrow> y mod 4 = 0"
proof -
  assume "y mod 100 = 0"
  then have "100 dvd y" by (simp add: mod_eq_0_iff_dvd)
  moreover have "(4::int) dvd 100" by simp
  ultimately have "4 dvd y" by (rule dvd_trans [rotated])
  then show ?thesis by (simp add: mod_eq_0_iff_dvd)
qed

lemma leap_count:
  fixes a b c :: bool
  assumes "c \<longrightarrow> b" "b \<longrightarrow> a"
  shows "365 + (if a then 1 else 0) - (if b then 1 else 0) + (if c then 1 else 0)
    = 365 + (if a \<and> (\<not> b \<or> c) then 1 else (0::int))"
  using assms by (cases a; cases b; cases c) simp_all

lemma days_before_year_step:
  "days_before_year (y + 1) = days_before_year y + 365 + (if is_leap y then 1 else 0)"
proof -
  have "days_before_year (y + 1) - days_before_year y
      = 365 + (y div 4 - (y - 1) div 4) - (y div 100 - (y - 1) div 100)
        + (y div 400 - (y - 1) div 400)"
    by (simp add: days_before_year_def Let_def algebra_simps)
  also have "\<dots> = 365 + (if y mod 4 = 0 then 1 else 0) - (if y mod 100 = 0 then 1 else 0)
      + (if y mod 400 = 0 then 1 else 0)"
    by (simp only: div_step [of 4 y, simplified] div_step [of 100 y, simplified]
        div_step [of 400 y, simplified])
  also have "\<dots> = 365 + (if is_leap y then 1 else 0)"
    unfolding is_leap_def
    by (rule leap_count) (use mod_400_100 [of y] mod_100_4 [of y] in blast)+
  finally show ?thesis by simp
qed

lemma days_before_year_mono: "y \<le> y' \<Longrightarrow> days_before_year y \<le> days_before_year y'"
proof (induction y' rule: int_ge_induct)
  case base
  show ?case by simp
next
  case (step i)
  then show ?case by (simp add: days_before_year_step)
qed

lemma DAYS_BEFORE_MONTH_eq:
  "DAYS_BEFORE_MONTH = [-1, 0, 31, 59, 90, 120, 151, 181, 212, 243, 273, 304, 334]"
  by (simp add: DAYS_BEFORE_MONTH_def DAYS_IN_MONTH_def)

lemma month_cases:
  assumes "1 \<le> m" "m \<le> 12"
  shows "m \<in> {1, 2, 3, 4, 5, 6, 7, 8, 9, 10, 11, 12 :: int}"
  using assms by simp arith


lemma month_next:
  assumes "1 \<le> m" "m \<le> 11"
  shows "days_before_month y (m + 1) = days_before_month y m + days_in_month y m"
proof -
  from assms have "m \<in> {1, 2, 3, 4, 5, 6, 7, 8, 9, 10, 11}" by simp arith
  then show ?thesis
    by (auto simp: days_before_month_def days_in_month_def DAYS_BEFORE_MONTH_eq DAYS_IN_MONTH_def)
qed

lemma days_in_month_pos: "1 \<le> m \<Longrightarrow> m \<le> 12 \<Longrightarrow> 28 \<le> days_in_month y m"
  using month_cases [of m]
  by (auto simp: days_in_month_def DAYS_IN_MONTH_def)

lemma days_before_month_mono:
  assumes "m \<le> m'" "1 \<le> m" "m' \<le> 12"
  shows "days_before_month y m \<le> days_before_month y m'"
  using assms
proof (induction m' rule: int_ge_induct)
  case base
  show ?case by simp
next
  case (step i)
  then have "days_before_month y (i + 1) = days_before_month y i + days_in_month y i"
    by (intro month_next) simp_all
  moreover have "28 \<le> days_in_month y i"
    using step by (intro days_in_month_pos) simp_all
  ultimately show ?case
    using step by simp
qed

lemma month_end_le:
  assumes "1 \<le> m" "m < m'" "m' \<le> 12"
  shows "days_before_month y m + days_in_month y m \<le> days_before_month y m'"
proof -
  have "days_before_month y (m + 1) = days_before_month y m + days_in_month y m"
    using assms by (intro month_next) simp_all
  moreover have "days_before_month y (m + 1) \<le> days_before_month y m'"
    using assms by (intro days_before_month_mono) simp_all
  ultimately show ?thesis by simp
qed

lemma december_end: "days_before_month y 12 + days_in_month y 12 = 365 + (if is_leap y then 1 else 0)"
  by (simp add: days_before_month_def days_in_month_def DAYS_BEFORE_MONTH_eq DAYS_IN_MONTH_def)

lemma days_before_month_nonneg: "1 \<le> m \<Longrightarrow> m \<le> 12 \<Longrightarrow> 0 \<le> days_before_month y m"
  using month_cases [of m]
  by (auto simp: days_before_month_def DAYS_BEFORE_MONTH_eq)

text \<open>The ordinal of a valid date lies in the year of the date.\<close>

lemma toordinal_in_year:
  assumes "valid_date a"
  shows "days_before_year (year a) < toordinal a"
    and "toordinal a \<le> days_before_year (year a + 1)"
proof -
  from assms have m: "1 \<le> month a" "month a \<le> 12" and d: "1 \<le> day a"
    "day a \<le> days_in_month (year a) (month a)"
    by (simp_all add: valid_date_def)
  show "days_before_year (year a) < toordinal a"
    using days_before_month_nonneg [OF m, of "year a"] d(1)
    by (simp add: toordinal_def ymd2ord_def)
  have "days_before_month (year a) (month a) + days_in_month (year a) (month a)
      \<le> days_before_month (year a) 12 + days_in_month (year a) 12"
  proof (cases "month a = 12")
    case True
    then show ?thesis by simp
  next
    case False
    with m have "month a < 12" by simp
    from month_end_le [OF m(1) this, of "year a"] show ?thesis
      using days_in_month_pos [of 12 "year a"] by simp
  qed
  then show "toordinal a \<le> days_before_year (year a + 1)"
    using d(2) by (simp add: toordinal_def ymd2ord_def days_before_year_step december_end)
qed

lemma toordinal_mono:
  assumes "valid_date a" "valid_date b" "date_lt a b"
  shows "toordinal a < toordinal b"
proof -
  from assms(1) have ma: "1 \<le> month a" "month a \<le> 12" and da: "1 \<le> day a"
    "day a \<le> days_in_month (year a) (month a)"
    by (simp_all add: valid_date_def)
  from assms(2) have mb: "1 \<le> month b" "month b \<le> 12" and db: "1 \<le> day b"
    by (simp_all add: valid_date_def)
  consider "year a < year b" | "year a = year b" "month a < month b"
    | "year a = year b" "month a = month b" "day a < day b"
    using assms(3) by (auto simp: date_lt_def)
  then show ?thesis
  proof cases
    case 1
    then have "days_before_year (year a + 1) \<le> days_before_year (year b)"
      by (intro days_before_year_mono) simp
    with toordinal_in_year(2) [OF assms(1)] toordinal_in_year(1) [OF assms(2)]
    show ?thesis by simp
  next
    case 2
    from month_end_le [OF ma(1) 2(2) mb(2), of "year a"] show ?thesis
      using 2(1) da(2) db by (simp add: toordinal_def ymd2ord_def)
  next
    case 3
    then show ?thesis by (simp add: toordinal_def ymd2ord_def)
  qed
qed

lemma date_trichotomy: "date_lt a b \<or> a = b \<or> date_lt b a"
  by (cases a; cases b) (auto simp: date_lt_def)

lemma toordinal_not_lt:
  assumes "valid_date a" "valid_date b" "\<not> date_lt a b"
  shows "toordinal b \<le> toordinal a"
  using date_trichotomy [of a b] toordinal_mono [OF assms(2) assms(1)] assms(3) by auto


section \<open>Birthdays when no date is out of range\<close>

lemma replace_year_iff:
  "replace_year dt y = Inr c \<longleftrightarrow> c = \<lparr>year = y, month = month dt, day = day dt\<rparr> \<and> valid_date c"
  by (auto simp: replace_year_def date_new_def valid_date_def)

text \<open>
  What \<^verbatim>\<open>days_to_birthday\<close> returns when neither \<^verbatim>\<open>replace\<close> raises: a number of
  days that is not negative, zero exactly when the birthday falls on today's month and day.
\<close>

lemma days_to_birthday_returns:
  assumes today: "valid_date today"
    and b: "birthday r = Some (Birthday bd)"
    and this_year: "replace_year bd (year today) = Inr c"
    and next_year: "date_lt c today \<longrightarrow> replace_year c (year today + 1) = Inr c'"
  shows "days_to_birthday today r
      = Inr (Some (if date_lt c today then date_sub_days c' today else date_sub_days c today))"
    and "date_lt c today \<longrightarrow> 0 < date_sub_days c' today"
    and "\<not> date_lt c today \<longrightarrow> 0 \<le> date_sub_days c today"
    and "month bd = month today \<and> day bd = day today \<longrightarrow>
           days_to_birthday today r = Inr (Some 0)"
proof -
  from this_year have c: "c = \<lparr>year = year today, month = month bd, day = day bd\<rparr>" "valid_date c"
    by (auto simp: replace_year_iff)
  show 1: "days_to_birthday today r
      = Inr (Some (if date_lt c today then date_sub_days c' today else date_sub_days c today))"
    using b this_year next_year by (simp add: days_to_birthday_def)
  show "date_lt c today \<longrightarrow> 0 < date_sub_days c' today"
  proof
    assume lt: "date_lt c today"
    with next_year have c': "c' = \<lparr>year = year today + 1, month = month c, day = day c\<rparr>"
      "valid_date c'"
      by (auto simp: replace_year_iff)
    then have "date_lt today c'"
      by (simp add: date_lt_def)
    from toordinal_mono [OF today c'(2) this] show "0 < date_sub_days c' today"
      by (simp add: date_sub_days_def)
  qed
  show "\<not> date_lt c today \<longrightarrow> 0 \<le> date_sub_days c today"
    using toordinal_not_lt [OF c(2) today] by (simp add: date_sub_days_def)
  show "month bd = month today \<and> day bd = day today \<longrightarrow>
           days_to_birthday today r = Inr (Some 0)"
  proof
    assume "month bd = month today \<and> day bd = day today"
    with c(1) have "c = today" by simp
    then have "\<not> date_lt c today" "date_sub_days c today = 0"
      by (simp_all add: date_lt_def date_sub_days_def)
    with 1 show "days_to_birthday today r = Inr (Some 0)" by simp
  qed
qed

lemma days_to_birthday_None: "birthday r = None \<Longrightarrow> days_to_birthday today r = Inr None"
  by (simp add: days_to_birthday_def)

text \<open>A value that \<^verbatim>\<open>days_to_birthday\<close> returns for a valid today is never negative.\<close>

lemma days_to_birthday_nonneg:
  assumes "valid_date today" "days_to_birthday today r = Inr (Some n)"
  shows "0 \<le> n"
proof -
  from assms(2) obtain b where b: "birthday r = Some b"
    by (cases "birthday r") (auto simp: days_to_birthday_def)
  obtain bd where bd: "b = Birthday bd" by (cases b)
  from assms(2) b bd obtain c where c: "replace_year bd (year today) = Inr c"
    by (cases "replace_year bd (year today)") (auto simp: days_to_birthday_def)
  show ?thesis
  proof (cases "date_lt c today")
    case True
    with assms(2) b bd c obtain c' where c': "replace_year c (year today + 1) = Inr c'"
      by (cases "replace_year c (year today + 1)") (auto simp: days_to_birthday_def)
    from days_to_birthday_returns(1,2) [OF assms(1) _ c, of r c'] b bd c' True assms(2)
    show ?thesis by simp
  next
    case False
    from days_to_birthday_returns(1,3) [OF assms(1) _ c, of r] b bd False assms(2)
    show ?thesis by simp
  qed
qed

text \<open>
  What \<^verbatim>\<open>get_upcoming_birthdays\<close> returns when \<^verbatim>\<open>days_to_birthday\<close> raises for no
  record of the book: the records with a birthday at most \<open>days\<close> days away, in the
  order of the book.
\<close>

lemma upcoming_loop_filter:
  assumes "\<forall>r \<in> set rs. \<not> isl (days_to_birthday today r)"
  shows "upcoming_loop today days rs acc = Inr (acc @ filter (upcoming today days) rs)"
  using assms
proof (induction rs arbitrary: acc)
  case Nil
  then show ?case by simp
next
  case (Cons r rs)
  then obtain v where v: "days_to_birthday today r = Inr v"
    by (cases "days_to_birthday today r") auto
  have "upcoming today days r \<longleftrightarrow> birthday r \<noteq> None \<and> v \<noteq> None \<and> the v \<le> days"
    using v by (cases v) (auto simp: upcoming_def)
  with Cons v show ?case
    by simp
qed

lemma get_upcoming_birthdays_filter:
  assumes "\<forall>r \<in> set (dict_values book). \<not> isl (days_to_birthday today r)"
  shows "get_upcoming_birthdays today days book
      = Inr (filter (upcoming today days) (dict_values book))"
  using upcoming_loop_filter [OF assms, of days "[]"] by (simp add: get_upcoming_birthdays_def)

lemma get_upcoming_birthdays_negative:
  assumes "valid_date today" "days < 0"
    and "\<forall>r \<in> set (dict_values book). \<not> isl (days_to_birthday today r)"
  shows "get_upcoming_birthdays today days book = Inr []"
proof -
  have "\<not> upcoming today days r" for r
    using days_to_birthday_nonneg [OF assms(1), of r] assms(2) by (auto simp: upcoming_def)
  then show ?thesis
    using get_upcoming_birthdays_filter [OF assms(3), of days] by simp
qed

end
